theory Spec2Isabelle
  imports Complex_Main
begin

section \<open>Extension registry (extensions/registry)\<close>

text \<open>
  The registry module keeps one module-level array \<open>extensions\<close>.
  \<^verbatim>\<open>
  export type Extension = { id: string; title: string; slot: ExtensionSlot;
                            render: (ctx: any) => ReactElement };
  const extensions: Extension[] = [];
  export function registerExtension(ext: Extension) { extensions.push(ext); }
  export function getExtensions(slot: ExtensionSlot): Extension[] {
    return extensions.filter((e) => e.slot === slot);
  }
  \<close>
  The generic variant of the module differs only in its TypeScript types (the casts
  \<open>as Extension\<close> are erased), so one model covers both. At run time a slot is a string
  and \<open>===\<close> on strings is equality of their contents; the render function is kept as
  an opaque field of type \<open>'r\<close>.
\<close>

record 'r Extension =
  ext_id :: string
  title :: string
  slot :: string
  render :: 'r

type_synonym 'r registry = "'r Extension list"

definition extensions_init :: "'r registry" where
  "extensions_init = []"

definition registerExtension :: "'r Extension \<Rightarrow> 'r registry \<Rightarrow> 'r registry" where
  "registerExtension ext extensions = extensions @ [ext]"

definition getExtensions :: "string \<Rightarrow> 'r registry \<Rightarrow> 'r Extension list" where
  "getExtensions s extensions = filter (\<lambda>e. slot e = s) extensions"

text \<open>The module state after a sequence of \<open>registerExtension\<close> calls, first call first.\<close>

definition register_all :: "'r Extension list \<Rightarrow> 'r registry" where
  "register_all exts = foldl (\<lambda>extensions ext. registerExtension ext extensions) extensions_init exts"

lemma foldl_registerExtension:
  "foldl (\<lambda>extensions ext. registerExtension ext extensions) acc exts = acc @ exts"
  by (induction exts arbitrary: acc) (simp_all add: registerExtension_def)

lemma register_all_eq: "register_all exts = exts"
  by (simp add: register_all_def extensions_init_def foldl_registerExtension)

text \<open>
  C3. After any sequence of \<open>registerExtension\<close> calls, \<open>getExtensions s\<close> returns exactly
  the registered extensions whose \<open>slot\<close> field equals \<open>s\<close>, in registration order
  (it is the subsequence of the calls' arguments selected by slot equality), and it
  is the empty list precisely when no registered extension has that slot.
\<close>

theorem getExtensions_registered:
  "getExtensions s (register_all exts) = filter (\<lambda>e. slot e = s) exts
   \<and> (getExtensions s (register_all exts) = []) = (s \<notin> slot ` set exts)"
  by (auto simp add: register_all_eq getExtensions_def filter_empty_conv)

theorem getExtensions_registered_witness:
  "getExtensions ''entity.sidebar''
     (register_all
        [\<lparr>ext_id = ''ext-type-facets'', title = ''Type facets'', slot = ''category.sidebar'', render = (0::nat)\<rparr>,
         \<lparr>ext_id = ''category.map'', title = ''Category map'', slot = ''category.sidebar'', render = 1\<rparr>,
         \<lparr>ext_id = ''entity.related'', title = ''Related entities'', slot = ''entity.sidebar'', render = 2\<rparr>])
   = [\<lparr>ext_id = ''entity.related'', title = ''Related entities'', slot = ''entity.sidebar'', render = 2\<rparr>]
   \<and> getExtensions ''search.sidebar''
     (register_all
        [\<lparr>ext_id = ''ext-type-facets'', title = ''Type facets'', slot = ''category.sidebar'', render = (0::nat)\<rparr>]) = []"
  using getExtensions_registered [of "''entity.sidebar''"
      "[\<lparr>ext_id = ''ext-type-facets'', title = ''Type facets'', slot = ''category.sidebar'', render = (0::nat)\<rparr>,
        \<lparr>ext_id = ''category.map'', title = ''Category map'', slot = ''category.sidebar'', render = 1\<rparr>,
        \<lparr>ext_id = ''entity.related'', title = ''Related entities'', slot = ''entity.sidebar'', render = 2\<rparr>]"]
    getExtensions_registered [of "''search.sidebar''"
      "[\<lparr>ext_id = ''ext-type-facets'', title = ''Type facets'', slot = ''category.sidebar'', render = (0::nat)\<rparr>]"]
  by simp

section \<open>JavaScript strings and the built-ins the codec calls\<close>

text \<open>
  A JavaScript string is a sequence of 16-bit UTF-16 code units; \<open>length\<close> counts code
  units. A code unit is modelled by its value, a natural number; \<open>code_units\<close> says
  that every element fits in 16 bits. The built-ins below follow the ECMAScript
  specification (\<open>encodeURIComponent\<close>, \<open>decodeURIComponent\<close>, and \<open>escape\<close> and
  \<open>unescape\<close> of Annex B) and the HTML standard (\<open>btoa\<close>, \<open>atob\<close>). A thrown
  exception is the value \<open>None\<close>.
\<close>

type_synonym jsstring = "nat list"

definition js :: "string \<Rightarrow> jsstring" where
  "js s = map of_char s"

definition code_units :: "jsstring \<Rightarrow> bool" where
  "code_units s = list_all (\<lambda>c. c < 0x10000) s"

definition is_lead :: "nat \<Rightarrow> bool" where
  "is_lead c = (0xD800 \<le> c \<and> c \<le> 0xDBFF)"

definition is_trail :: "nat \<Rightarrow> bool" where
  "is_trail c = (0xDC00 \<le> c \<and> c \<le> 0xDFFF)"

text \<open>
  A string is well formed when it has no unpaired surrogate: it is the UTF-16 form of a
  sequence of Unicode scalar values.
\<close>

fun well_formed :: "jsstring \<Rightarrow> bool" where
  "well_formed [] = True"
| "well_formed (c # cs) =
     (if is_lead c then (case cs of [] \<Rightarrow> False | d # ds \<Rightarrow> is_trail d \<and> well_formed ds)
      else if is_trail c then False
      else c < 0x10000 \<and> well_formed cs)"

definition is_upper :: "nat \<Rightarrow> bool" where
  "is_upper c = (0x41 \<le> c \<and> c \<le> 0x5A)"

definition is_lower :: "nat \<Rightarrow> bool" where
  "is_lower c = (0x61 \<le> c \<and> c \<le> 0x7A)"

definition is_digit :: "nat \<Rightarrow> bool" where
  "is_digit c = (0x30 \<le> c \<and> c \<le> 0x39)"

definition is_alnum :: "nat \<Rightarrow> bool" where
  "is_alnum c = (is_upper c \<or> is_lower c \<or> is_digit c)"

subsection \<open>Hexadecimal digits and UTF-8\<close>

definition hexdigit :: "nat \<Rightarrow> nat" where
  \<comment> \<open>the upper-case digit of a value below 16\<close>
  "hexdigit d = (if d < 10 then 0x30 + d else 0x41 + (d - 10))"

definition hexval :: "nat \<Rightarrow> nat option" where
  \<comment> \<open>the value of a hexadecimal digit, either case\<close>
  "hexval c =
     (if is_digit c then Some (c - 0x30)
      else if 0x41 \<le> c \<and> c \<le> 0x46 then Some (c - 0x41 + 10)
      else if 0x61 \<le> c \<and> c \<le> 0x66 then Some (c - 0x61 + 10)
      else None)"

fun hexnum :: "nat \<Rightarrow> jsstring \<Rightarrow> nat option" where
  \<comment> \<open>a non-empty run of hexadecimal digits read as a number (ParseText with HexDigits)\<close>
  "hexnum acc [] = Some acc"
| "hexnum acc (c # cs) = (case hexval c of None \<Rightarrow> None | Some d \<Rightarrow> hexnum (16 * acc + d) cs)"

definition parse_hex :: "jsstring \<Rightarrow> nat option" where
  "parse_hex ds = (if ds = [] then None else hexnum 0 ds)"

definition pct :: "nat \<Rightarrow> jsstring" where
  \<comment> \<open>\<open>%XX\<close> for an octet\<close>
  "pct b = [0x25, hexdigit (b div 16), hexdigit (b mod 16)]"

definition utf8_encode :: "nat \<Rightarrow> nat list" where
  "utf8_encode cp =
     (if cp < 0x80 then [cp]
      else if cp < 0x800 then [0xC0 + cp div 0x40, 0x80 + cp mod 0x40]
      else if cp < 0x10000 then [0xE0 + cp div 0x1000, 0x80 + cp div 0x40 mod 0x40, 0x80 + cp mod 0x40]
      else [0xF0 + cp div 0x40000, 0x80 + cp div 0x1000 mod 0x40,
            0x80 + cp div 0x40 mod 0x40, 0x80 + cp mod 0x40])"

definition is_cont :: "nat \<Rightarrow> bool" where
  \<comment> \<open>a UTF-8 continuation octet \<open>10xxxxxx\<close>\<close>
  "is_cont b = (0x80 \<le> b \<and> b < 0xC0)"

fun utf8_decode :: "nat list \<Rightarrow> nat option" where
  \<comment> \<open>the code point of a well-formed UTF-8 sequence of 2 to 4 octets: no overlong form,
      no surrogate, nothing above U+10FFFF\<close>
  "utf8_decode [a, b] =
     (let v = (a - 0xC0) * 0x40 + (b - 0x80)
      in if 0xC0 \<le> a \<and> a < 0xE0 \<and> is_cont b \<and> 0x80 \<le> v then Some v else None)"
| "utf8_decode [a, b, c] =
     (let v = (a - 0xE0) * 0x1000 + (b - 0x80) * 0x40 + (c - 0x80)
      in if 0xE0 \<le> a \<and> a < 0xF0 \<and> is_cont b \<and> is_cont c \<and> 0x800 \<le> v
            \<and> \<not> (0xD800 \<le> v \<and> v \<le> 0xDFFF) then Some v else None)"
| "utf8_decode [a, b, c, d] =
     (let v = (a - 0xF0) * 0x40000 + (b - 0x80) * 0x1000 + (c - 0x80) * 0x40 + (d - 0x80)
      in if 0xF0 \<le> a \<and> a < 0xF8 \<and> is_cont b \<and> is_cont c \<and> is_cont d \<and> 0x10000 \<le> v
            \<and> v \<le> 0x10FFFF then Some v else None)"
| "utf8_decode _ = None"

definition UTF16EncodeCodePoint :: "nat \<Rightarrow> jsstring" where
  "UTF16EncodeCodePoint cp =
     (if cp \<le> 0xFFFF then [cp]
      else [(cp - 0x10000) div 0x400 + 0xD800, (cp - 0x10000) mod 0x400 + 0xDC00])"

definition UTF16SurrogatePairToCodePoint :: "nat \<Rightarrow> nat \<Rightarrow> nat" where
  "UTF16SurrogatePairToCodePoint lead trail = (lead - 0xD800) * 0x400 + (trail - 0xDC00) + 0x10000"

subsection \<open>encodeURIComponent and decodeURIComponent\<close>

definition uriUnreserved :: "nat \<Rightarrow> bool" where
  \<comment> \<open>letters, digits and \<open>- _ . ! ~ * ' ( )\<close>\<close>
  "uriUnreserved c = (is_alnum c \<or> c \<in> set [0x2D, 0x5F, 0x2E, 0x21, 0x7E, 0x2A, 0x27, 0x28, 0x29])"

text \<open>
  Encode of ECMAScript with the unreserved set of \<open>encodeURIComponent\<close>: an unreserved
  code unit is copied; otherwise the code point at the position is read (a surrogate
  pair is one code point, an unpaired surrogate throws URIError) and each octet of its
  UTF-8 form is written as \<open>%XX\<close>.
\<close>

fun encodeURIComponent :: "jsstring \<Rightarrow> jsstring option" where
  "encodeURIComponent [] = Some []"
| "encodeURIComponent (c # cs) =
     (if uriUnreserved c then map_option ((#) c) (encodeURIComponent cs)
      else if is_trail c then None
      else if is_lead c then
        (case cs of
           [] \<Rightarrow> None
         | d # ds \<Rightarrow>
             if is_trail d
             then map_option ((@) (concat (map pct (utf8_encode (UTF16SurrogatePairToCodePoint c d)))))
                    (encodeURIComponent ds)
             else None)
      else map_option ((@) (concat (map pct (utf8_encode c)))) (encodeURIComponent cs))"

fun pct_octet :: "jsstring \<Rightarrow> (nat \<times> jsstring) option" where
  \<comment> \<open>reads \<open>%XX\<close> at the head of the string: the octet and the rest\<close>
  "pct_octet (p # h # l # rest) =
     (if p = 0x25 then
        (case hexval h of None \<Rightarrow> None
         | Some a \<Rightarrow> (case hexval l of None \<Rightarrow> None | Some b \<Rightarrow> Some (16 * a + b, rest)))
      else None)"
| "pct_octet _ = None"

fun pct_octets :: "nat \<Rightarrow> jsstring \<Rightarrow> (nat list \<times> jsstring) option" where
  \<comment> \<open>reads \<open>n\<close> groups \<open>%XX\<close>\<close>
  "pct_octets 0 s = Some ([], s)"
| "pct_octets (Suc n) s =
     (case pct_octet s of None \<Rightarrow> None
      | Some (b, r) \<Rightarrow> (case pct_octets n r of None \<Rightarrow> None | Some (bs, r') \<Rightarrow> Some (b # bs, r')))"

definition leading_ones :: "nat \<Rightarrow> nat" where
  \<comment> \<open>the number of leading 1 bits of an octet\<close>
  "leading_ones b =
     (if b < 0x80 then 0 else if b < 0xC0 then 1 else if b < 0xE0 then 2 else if b < 0xF0 then 3
      else if b < 0xF8 then 4 else 5)"

lemma pct_octet_shorter: "pct_octet s = Some (b, r) \<Longrightarrow> length r < length s"
  by (induction s rule: pct_octet.induct) (auto split: if_splits option.splits)

lemma pct_octets_shorter: "pct_octets n s = Some (bs, r) \<Longrightarrow> length r \<le> length s"
proof (induction n arbitrary: s bs)
  case 0
  then show ?case by simp
next
  case (Suc n)
  then show ?case
    by (fastforce split: option.splits dest: pct_octet_shorter)
qed

text \<open>
  Decode of ECMAScript with the empty reserved set of \<open>decodeURIComponent\<close>: \<open>%XX\<close>
  with an octet below 0x80 is that code unit; an octet with \<open>n\<close> leading 1 bits
  (2 to 4) starts a UTF-8 sequence of \<open>n\<close> escaped octets, which must be well formed;
  anything else after \<open>%\<close> throws URIError.
\<close>

function decodeURIComponent :: "jsstring \<Rightarrow> jsstring option" where
  "decodeURIComponent [] = Some []"
| "decodeURIComponent (c # cs) =
     (if c \<noteq> 0x25 then map_option ((#) c) (decodeURIComponent cs)
      else
        (case pct_octet (c # cs) of
           None \<Rightarrow> None
         | Some (b, r) \<Rightarrow>
             if leading_ones b = 0 then map_option ((#) b) (decodeURIComponent r)
             else if leading_ones b = 1 \<or> leading_ones b > 4 then None
             else
               (case pct_octets (leading_ones b - 1) r of
                  None \<Rightarrow> None
                | Some (bs, r') \<Rightarrow>
                    (case utf8_decode (b # bs) of
                       None \<Rightarrow> None
                     | Some v \<Rightarrow> map_option ((@) (UTF16EncodeCodePoint v)) (decodeURIComponent r')))))"
  by pat_completeness auto
termination
  by (relation "measure length") (auto dest!: pct_octet_shorter pct_octets_shorter)

subsection \<open>escape and unescape (ECMAScript Annex B)\<close>

definition escape_unescaped :: "nat \<Rightarrow> bool" where
  \<comment> \<open>letters, digits, \<open>_\<close> and \<open>@ * + - . /\<close>\<close>
  "escape_unescaped c = (is_alnum c \<or> c \<in> set [0x5F, 0x40, 0x2A, 0x2B, 0x2D, 0x2E, 0x2F])"

definition escape_unit :: "nat \<Rightarrow> jsstring" where
  "escape_unit c =
     (if escape_unescaped c then [c]
      else if c < 256 then pct c
      else [0x25, 0x75, hexdigit (c div 0x1000), hexdigit (c div 0x100 mod 0x10),
            hexdigit (c div 0x10 mod 0x10), hexdigit (c mod 0x10)])"

definition escape :: "jsstring \<Rightarrow> jsstring" where
  "escape s = concat (map escape_unit s)"

text \<open>
  \<open>unescape\<close> at a \<open>%\<close> in position \<open>k\<close> of a string of length \<open>len\<close>: when
  \<open>k + 5 < len\<close> and the next unit is \<open>u\<close> it reads four hexadecimal digits, else when
  \<open>k + 3 \<le> len\<close> it reads two; when they parse, the unit of that value replaces the
  escape, and otherwise the \<open>%\<close> stands for itself. With \<open>cs\<close> the units after the
  \<open>%\<close>, \<open>len - k = length cs + 1\<close>.
\<close>

function unescape :: "jsstring \<Rightarrow> jsstring" where
  "unescape [] = []"
| "unescape (c # cs) =
     (if c \<noteq> 0x25 then c # unescape cs
      else if 5 \<le> length cs \<and> hd cs = 0x75 then
        (case parse_hex (take 4 (tl cs)) of
           None \<Rightarrow> c # unescape cs
         | Some n \<Rightarrow> n # unescape (drop 5 cs))
      else if 2 \<le> length cs then
        (case parse_hex (take 2 cs) of
           None \<Rightarrow> c # unescape cs
         | Some n \<Rightarrow> n # unescape (drop 2 cs))
      else c # unescape cs)"
  by pat_completeness auto
termination
  by (relation "measure length") auto

subsection \<open>btoa and atob (HTML standard), base64 of RFC 4648\<close>

definition b64char :: "nat \<Rightarrow> nat" where
  \<comment> \<open>the character of a 6-bit value: \<open>A-Z a-z 0-9 + /\<close>\<close>
  "b64char i =
     (if i < 26 then 0x41 + i
      else if i < 52 then 0x61 + (i - 26)
      else if i < 62 then 0x30 + (i - 52)
      else if i = 62 then 0x2B
      else 0x2F)"

definition b64val :: "nat \<Rightarrow> nat option" where
  "b64val c =
     (if is_upper c then Some (c - 0x41)
      else if is_lower c then Some (c - 0x61 + 26)
      else if is_digit c then Some (c - 0x30 + 52)
      else if c = 0x2B then Some 62
      else if c = 0x2F then Some 63
      else None)"

fun base64_encode :: "nat list \<Rightarrow> jsstring" where
  "base64_encode (a # b # c # rest) =
     b64char (a div 4) # b64char (a mod 4 * 16 + b div 16) # b64char (b mod 16 * 4 + c div 64)
       # b64char (c mod 64) # base64_encode rest"
| "base64_encode [a, b] =
     [b64char (a div 4), b64char (a mod 4 * 16 + b div 16), b64char (b mod 16 * 4), 0x3D]"
| "base64_encode [a] = [b64char (a div 4), b64char (a mod 4 * 16), 0x3D, 0x3D]"
| "base64_encode [] = []"

definition btoa :: "jsstring \<Rightarrow> jsstring option" where
  \<comment> \<open>InvalidCharacterError when a unit is above U+00FF\<close>
  "btoa s = (if list_all (\<lambda>c. c \<le> 0xFF) s then Some (base64_encode s) else None)"

fun base64_decode :: "nat list \<Rightarrow> nat list" where
  \<comment> \<open>on 6-bit values: 24 bits give three octets; a rest of 18 bits gives two and of 12
      bits one, the last 2 or 4 bits discarded\<close>
  "base64_decode (a # b # c # d # rest) =
     (a * 4 + b div 16) # (b mod 16 * 16 + c div 4) # (c mod 4 * 64 + d) # base64_decode rest"
| "base64_decode [a, b, c] = [a * 4 + b div 16, b mod 16 * 16 + c div 4]"
| "base64_decode [a, b] = [a * 4 + b div 16]"
| "base64_decode _ = []"

definition ascii_whitespace :: "nat \<Rightarrow> bool" where
  "ascii_whitespace c = (c \<in> set [0x09, 0x0A, 0x0C, 0x0D, 0x20])"

definition strip_padding :: "jsstring \<Rightarrow> jsstring" where
  \<comment> \<open>removes one or two \<open>=\<close> at the end\<close>
  "strip_padding s =
     (case rev s of
        a # b # r \<Rightarrow> if a = 0x3D \<and> b = 0x3D then rev r else if a = 0x3D then rev (b # r) else s
      | [a] \<Rightarrow> if a = 0x3D then [] else s
      | [] \<Rightarrow> s)"

definition atob :: "jsstring \<Rightarrow> jsstring option" where
  \<comment> \<open>forgiving-base64 decode; InvalidCharacterError on failure\<close>
  "atob data =
     (let d1 = filter (\<lambda>c. \<not> ascii_whitespace c) data;
          d2 = (if length d1 mod 4 = 0 then strip_padding d1 else d1)
      in if length d2 mod 4 = 1 then None
         else (case those (map b64val d2) of None \<Rightarrow> None | Some vs \<Rightarrow> Some (base64_decode vs)))"

subsection \<open>String.prototype.replace with the codec's regular expressions\<close>

definition replace_all :: "nat \<Rightarrow> nat \<Rightarrow> jsstring \<Rightarrow> jsstring" where
  \<comment> \<open>\<open>s.replace(/x/g, "y")\<close> for single characters \<open>x\<close> and \<open>y\<close>\<close>
  "replace_all x y s = map (\<lambda>c. if c = x then y else c) s"

definition strip_trailing :: "nat \<Rightarrow> jsstring \<Rightarrow> jsstring" where
  \<comment> \<open>\<open>s.replace(/x+$/, "")\<close>: the one match is the run of \<open>x\<close> at the end of the string\<close>
  "strip_trailing x s = rev (dropWhile (\<lambda>c. c = x) (rev s))"

section \<open>Identifier codec (lib/codec.ts)\<close>

text \<open>
  \<^verbatim>\<open>
  export function uriToId(uri: string): string {
    const b64 = btoa(unescape(encodeURIComponent(uri)))
      .replace(/\+/g, "-").replace(/\//g, "_").replace(/=+$/g, "");
    return b64;
  }
  export function idToUri(id: string): string {
    let b64 = id.replace(/-/g, "+").replace(/_/g, "/");
    while (b64.length % 4 !== 0) b64 += "=";
    return decodeURIComponent(escape(atob(b64)));
  }
  \<close>
\<close>

definition uriToId :: "jsstring \<Rightarrow> jsstring option" where
  "uriToId uri =
     (case encodeURIComponent uri of
        None \<Rightarrow> None
      | Some e \<Rightarrow>
          (case btoa (unescape e) of
             None \<Rightarrow> None
           | Some b64 \<Rightarrow> Some (strip_trailing 0x3D (replace_all 0x2F 0x5F (replace_all 0x2B 0x2D b64)))))"

function pad4 :: "jsstring \<Rightarrow> jsstring" where
  \<comment> \<open>the loop \<open>while (b64.length % 4 !== 0) b64 += "="\<close>\<close>
  "pad4 b64 = (if length b64 mod 4 \<noteq> 0 then pad4 (b64 @ [0x3D]) else b64)"
  by pat_completeness auto
termination
  by (relation "measure (\<lambda>b64. (4 - length b64 mod 4) mod 4)") (auto simp add: mod_Suc)

declare pad4.simps [simp del]

definition idToUri :: "jsstring \<Rightarrow> jsstring option" where
  "idToUri ident =
     (let b64 = pad4 (replace_all 0x5F 0x2F (replace_all 0x2D 0x2B ident))
      in case atob b64 of None \<Rightarrow> None | Some bytes \<Rightarrow> decodeURIComponent (escape bytes))"

subsection \<open>Escaping and UTF-8: each built-in undoes its partner\<close>

lemma append_single: "(@) [x] = (#) x"
  by (simp add: fun_eq_iff)

lemma hexval_hexdigit: "d < 16 \<Longrightarrow> hexval (hexdigit d) = Some d"
  by (auto simp add: hexval_def hexdigit_def is_digit_def)

lemma hexdigit_not_u: "d < 16 \<Longrightarrow> hexdigit d \<noteq> 0x75"
  by (auto simp add: hexdigit_def)

lemma parse_hex_pair:
  "a < 16 \<Longrightarrow> b < 16 \<Longrightarrow> parse_hex [hexdigit a, hexdigit b] = Some (16 * a + b)"
  by (simp add: parse_hex_def hexval_hexdigit)

lemma pct_octet_pct: "b < 256 \<Longrightarrow> pct_octet (pct b @ rest) = Some (b, rest)"
  by (simp add: pct_def hexval_hexdigit)

lemma unescape_pct: "b < 256 \<Longrightarrow> unescape (pct b @ rest) = b # unescape rest"
  by (simp add: pct_def hexdigit_not_u parse_hex_pair)

lemma unescape_pcts:
  "list_all (\<lambda>b. b < 256) bs \<Longrightarrow> unescape (concat (map pct bs) @ rest) = bs @ unescape rest"
  by (induction bs) (simp_all add: unescape_pct)

text \<open>The UTF-8 octets of a string, code point by code point.\<close>

fun utf8_units :: "jsstring \<Rightarrow> nat list" where
  "utf8_units [] = []"
| "utf8_units [c] = utf8_encode c"
| "utf8_units (c # d # ds) =
     (if is_lead c then utf8_encode (UTF16SurrogatePairToCodePoint c d) @ utf8_units ds
      else utf8_encode c @ utf8_units (d # ds))"

definition scalar :: "nat \<Rightarrow> bool" where
  "scalar cp = (cp < 0x110000 \<and> \<not> (0xD800 \<le> cp \<and> cp \<le> 0xDFFF))"

lemma mod64_less: "(x::nat) mod 64 < 64"
  by simp

lemma utf8_encode_octets: "cp < 0x110000 \<Longrightarrow> list_all (\<lambda>b. b < 256) (utf8_encode cp)"
  using mod64_less [of cp] mod64_less [of "cp div 64"] mod64_less [of "cp div 4096"]
  by (simp add: utf8_encode_def less_mult_imp_div_less del: mod_less_divisor)

lemma pair_scalar:
  "is_lead c \<Longrightarrow> is_trail d \<Longrightarrow> scalar (UTF16SurrogatePairToCodePoint c d)"
  by (auto simp add: is_lead_def is_trail_def scalar_def UTF16SurrogatePairToCodePoint_def)

lemma pair_roundtrip:
  assumes "is_lead c" and "is_trail d"
  shows "UTF16EncodeCodePoint (UTF16SurrogatePairToCodePoint c d) = [c, d]"
proof -
  define x where "x = c - 0xD800"
  define y where "y = d - 0xDC00"
  from assms have c: "c = x + 0xD800" and d: "d = y + 0xDC00" and y: "y < 0x400"
    by (auto simp add: is_lead_def is_trail_def x_def y_def)
  have cp: "UTF16SurrogatePairToCodePoint c d = (x * 0x400 + y) + 0x10000"
    by (simp add: UTF16SurrogatePairToCodePoint_def c d)
  show ?thesis
    unfolding cp UTF16EncodeCodePoint_def using y by (simp add: c d)
qed

lemma unit_scalar: "\<not> is_lead c \<Longrightarrow> \<not> is_trail c \<Longrightarrow> c < 0x10000 \<Longrightarrow> scalar c"
  by (auto simp add: is_lead_def is_trail_def scalar_def)

lemma uriUnreserved_ascii: "uriUnreserved c \<Longrightarrow> c < 0x80 \<and> c \<noteq> 0x25"
  by (auto simp add: uriUnreserved_def is_alnum_def is_upper_def is_lower_def is_digit_def)

lemma uriUnreserved_not_surrogate: "uriUnreserved c \<Longrightarrow> \<not> is_lead c \<and> \<not> is_trail c"
  using uriUnreserved_ascii [of c] by (auto simp add: is_lead_def is_trail_def)

lemma utf8_units_octets: "well_formed s \<Longrightarrow> list_all (\<lambda>b. b < 256) (utf8_units s)"
proof (induction s rule: utf8_units.induct)
  case 1
  then show ?case by simp
next
  case (2 c)
  then show ?case by (auto split: if_splits intro!: utf8_encode_octets)
next
  case (3 c d ds)
  show ?case
  proof (cases "is_lead c")
    case True
    with 3 have "is_trail d" and wf: "well_formed ds" by auto
    from pair_scalar [OF True \<open>is_trail d\<close>]
    have "list_all (\<lambda>b. b < 256) (utf8_encode (UTF16SurrogatePairToCodePoint c d))"
      by (simp add: scalar_def utf8_encode_octets)
    with True wf 3 show ?thesis by simp
  next
    case False
    with 3 have "c < 0x10000" and wf: "well_formed (d # ds)" by (auto split: if_splits)
    then have "list_all (\<lambda>b. b < 256) (utf8_encode c)"
      by (simp add: utf8_encode_octets)
    with False wf 3 show ?thesis by simp
  qed
qed

lemma encodeURIComponent_utf8:
  "well_formed s \<Longrightarrow> \<exists>e. encodeURIComponent s = Some e \<and> unescape e = utf8_units s"
proof (induction s rule: utf8_units.induct)
  case 1
  then show ?case by simp
next
  case (2 c)
  show ?case
  proof (cases "uriUnreserved c")
    case True
    then show ?thesis
      using uriUnreserved_ascii [of c] by (simp add: utf8_encode_def)
  next
    case False
    with 2 have "\<not> is_lead c" "\<not> is_trail c" "c < 0x10000" by (auto split: if_splits)
    moreover from this have "list_all (\<lambda>b. b < 256) (utf8_encode c)"
      by (simp add: utf8_encode_octets)
    ultimately show ?thesis
      using False unescape_pcts [of "utf8_encode c" "[]"] by simp
  qed
next
  case (3 c d ds)
  show ?case
  proof (cases "is_lead c")
    case True
    with 3 have tr: "is_trail d" and wf: "well_formed ds" by auto
    from 3(1) [OF True wf] obtain e where e: "encodeURIComponent ds = Some e" "unescape e = utf8_units ds"
      by blast
    from pair_scalar [OF True tr]
    have "list_all (\<lambda>b. b < 256) (utf8_encode (UTF16SurrogatePairToCodePoint c d))"
      by (simp add: scalar_def utf8_encode_octets)
    then show ?thesis
      using True tr e uriUnreserved_not_surrogate [of c]
      by (auto simp add: unescape_pcts is_lead_def is_trail_def)
  next
    case False
    with 3 have nt: "\<not> is_trail c" and lt: "c < 0x10000" and wf: "well_formed (d # ds)"
      by (auto split: if_splits)
    from 3(2) [OF False wf] obtain e where e: "encodeURIComponent (d # ds) = Some e" "unescape e = utf8_units (d # ds)"
      by blast
    show ?thesis
    proof (cases "uriUnreserved c")
      case True
      then show ?thesis
        using False e uriUnreserved_ascii [of c] by (simp add: utf8_encode_def)
    next
      case nu: False
      from lt have "list_all (\<lambda>b. b < 256) (utf8_encode c)"
        by (simp add: utf8_encode_octets)
      then show ?thesis
        using False nt nu e by (simp add: unescape_pcts)
    qed
  qed
qed


lemma escape_append: "escape (xs @ ys) = escape xs @ escape ys"
  by (simp add: escape_def)

lemma escape_unit_high: "0x80 \<le> b \<Longrightarrow> b < 256 \<Longrightarrow> escape_unit b = pct b"
  by (auto simp add: escape_unit_def escape_unescaped_def is_alnum_def is_upper_def is_lower_def
      is_digit_def)

lemma escape_high:
  "list_all (\<lambda>b. 0x80 \<le> b \<and> b < 256) bs \<Longrightarrow> escape bs = concat (map pct bs)"
  by (induction bs) (simp_all add: escape_def escape_unit_high)

lemma pct_octets_pcts:
  "list_all (\<lambda>b. b < 256) bs \<Longrightarrow> pct_octets (length bs) (concat (map pct bs) @ r) = Some (bs, r)"
  by (induction bs) (simp_all add: pct_octet_pct)

lemma decodeURIComponent_pct:
  "b < 256 \<Longrightarrow>
   decodeURIComponent (pct b @ r) =
     (if leading_ones b = 0 then map_option ((#) b) (decodeURIComponent r)
      else if leading_ones b = 1 \<or> leading_ones b > 4 then None
      else
        (case pct_octets (leading_ones b - 1) r of
           None \<Rightarrow> None
         | Some (bs, r') \<Rightarrow>
             (case utf8_decode (b # bs) of
                None \<Rightarrow> None
              | Some v \<Rightarrow> map_option ((@) (UTF16EncodeCodePoint v)) (decodeURIComponent r'))))"
proof -
  assume b: "b < 256"
  have "pct b @ r = 0x25 # ([hexdigit (b div 16), hexdigit (b mod 16)] @ r)"
    by (simp add: pct_def)
  moreover have "pct_octet (0x25 # ([hexdigit (b div 16), hexdigit (b mod 16)] @ r)) = Some (b, r)"
    using pct_octet_pct [OF b, of r] by (simp add: pct_def)
  ultimately show ?thesis
    by (simp del: pct_octet.simps)
qed

lemma digits64_3: "(cp::nat) div 4096 * 4096 + cp div 64 mod 64 * 64 + cp mod 64 = cp"
proof -
  have "cp div 64 div 64 = cp div 4096" by (simp add: div_mult2_eq [symmetric])
  then have "cp div 4096 * 64 + cp div 64 mod 64 = cp div 64"
    by (metis div_mult_mod_eq)
  then have "(cp div 4096 * 64 + cp div 64 mod 64) * 64 + cp mod 64 = cp"
    by simp
  then show ?thesis by (simp add: algebra_simps)
qed

lemma digits64_4: "(cp::nat) div 262144 * 262144 + cp div 4096 mod 64 * 4096 + cp div 64 mod 64 * 64 + cp mod 64 = cp"
proof -
  have "cp div 4096 div 64 = cp div 262144" by (simp add: div_mult2_eq [symmetric])
  then have "cp div 262144 * 64 + cp div 4096 mod 64 = cp div 4096"
    by (metis div_mult_mod_eq)
  then have "(cp div 262144 * 64 + cp div 4096 mod 64) * 4096 + cp div 64 mod 64 * 64 + cp mod 64 = cp"
    using digits64_3 [of cp] by simp
  then show ?thesis by (simp add: algebra_simps)
qed


lemma utf8_encode_shape:
  assumes "scalar cp" and "0x80 \<le> cp"
  shows "\<exists>b bs. utf8_encode cp = b # bs \<and> list_all (\<lambda>b. 0x80 \<le> b \<and> b < 256) (b # bs)
           \<and> leading_ones b = Suc (length bs) \<and> 0 < length bs \<and> length bs < 4"
proof -
  note m = mod64_less [of cp] mod64_less [of "cp div 64"] mod64_less [of "cp div 4096"]
  consider "cp < 0x800" | "0x800 \<le> cp" "cp < 0x10000" | "0x10000 \<le> cp"
    by linarith
  then show ?thesis
  proof cases
    case 1
    then have "cp div 64 < 32" by (simp add: less_mult_imp_div_less)
    with 1 assms m show ?thesis
      by (simp add: utf8_encode_def leading_ones_def del: mod_less_divisor)
  next
    case 2
    then have "cp div 4096 < 16" by (simp add: less_mult_imp_div_less)
    with 2 assms m show ?thesis
      by (simp add: utf8_encode_def leading_ones_def del: mod_less_divisor)
  next
    case 3
    from assms have "cp div 262144 < 8" by (simp add: scalar_def less_mult_imp_div_less)
    with 3 assms m show ?thesis
      by (simp add: utf8_encode_def leading_ones_def del: mod_less_divisor)
  qed
qed

lemma utf8_decode_encode:
  assumes "scalar cp" and "0x80 \<le> cp"
  shows "utf8_decode (utf8_encode cp) = Some cp"
proof -
  note m = mod64_less [of cp] mod64_less [of "cp div 64"] mod64_less [of "cp div 4096"]
  have d2: "cp div 64 * 64 + cp mod 64 = cp"
    by simp
  consider "cp < 0x800" | "0x800 \<le> cp" "cp < 0x10000" | "0x10000 \<le> cp"
    by linarith
  then show ?thesis
  proof cases
    case 1
    then have "cp div 64 < 32" by (simp add: less_mult_imp_div_less)
    with 1 assms m show ?thesis
      by (simp add: utf8_encode_def is_cont_def del: mod_less_divisor)
  next
    case 2
    then have "cp div 4096 < 16" by (simp add: less_mult_imp_div_less)
    with 2 assms m digits64_3 [of cp] show ?thesis
      by (simp add: utf8_encode_def is_cont_def scalar_def del: mod_less_divisor)
  next
    case 3
    from assms have "cp div 262144 < 8" by (simp add: scalar_def less_mult_imp_div_less)
    with 3 assms m digits64_4 [of cp] show ?thesis
      by (simp add: utf8_encode_def is_cont_def scalar_def del: mod_less_divisor)
  qed
qed

lemma decode_code_point:
  assumes "scalar cp"
  shows "decodeURIComponent (escape (utf8_encode cp) @ rest) =
           map_option ((@) (UTF16EncodeCodePoint cp)) (decodeURIComponent rest)"
proof (cases "cp < 0x80")
  case True
  then have enc: "utf8_encode cp = [cp]" and u16: "UTF16EncodeCodePoint cp = [cp]"
    by (simp_all add: utf8_encode_def UTF16EncodeCodePoint_def)
  show ?thesis
  proof (cases "escape_unescaped cp")
    case e: True
    then have "cp \<noteq> 0x25"
      by (auto simp add: escape_unescaped_def is_alnum_def is_upper_def is_lower_def is_digit_def)
    with e show ?thesis
      by (simp add: enc u16 escape_def escape_unit_def append_single)
  next
    case e: False
    from True have "escape [cp] = pct cp"
      by (simp add: escape_def escape_unit_def e)
    moreover from True have "leading_ones cp = 0" "cp < 256"
      by (simp_all add: leading_ones_def)
    ultimately show ?thesis
      by (simp add: enc u16 decodeURIComponent_pct append_single)
  qed
next
  case False
  then have ge: "0x80 \<le> cp" by simp
  from utf8_encode_shape [OF assms ge] obtain b bs where
    enc: "utf8_encode cp = b # bs" and hi: "list_all (\<lambda>b. 0x80 \<le> b \<and> b < 256) (b # bs)"
    and lo: "leading_ones b = Suc (length bs)" and len: "0 < length bs" "length bs < 4"
    by blast
  from hi have esc: "escape (b # bs) = pct b @ concat (map pct bs)"
    using escape_high [of "b # bs"] by simp
  from hi have lt: "b < 256" and lts: "list_all (\<lambda>b. b < 256) bs"
    by (simp_all add: list_all_iff)
  have dec: "utf8_decode (b # bs) = Some cp"
    using utf8_decode_encode [OF assms ge] by (simp add: enc)
  show ?thesis
    using lt lo len dec pct_octets_pcts [OF lts, of rest]
    by (simp add: enc esc decodeURIComponent_pct)
qed

lemma decodeURIComponent_escape_utf8:
  "well_formed s \<Longrightarrow> decodeURIComponent (escape (utf8_units s)) = Some s"
proof (induction s rule: utf8_units.induct)
  case 1
  then show ?case by (simp add: escape_def)
next
  case (2 c)
  then have "scalar c" by (auto split: if_splits intro: unit_scalar)
  moreover from 2 have "c \<le> 0xFFFF" by (auto split: if_splits)
  ultimately show ?case
    using decode_code_point [of c "[]"] by (simp add: UTF16EncodeCodePoint_def)
next
  case (3 c d ds)
  show ?case
  proof (cases "is_lead c")
    case True
    with 3 have tr: "is_trail d" and wf: "well_formed ds" by auto
    from decode_code_point [OF pair_scalar [OF True tr], of "escape (utf8_units ds)"]
    show ?thesis
      using True 3(1) [OF True wf] by (simp add: escape_append pair_roundtrip [OF True tr])
  next
    case False
    with 3 have nt: "\<not> is_trail c" and lt: "c < 0x10000" and wf: "well_formed (d # ds)"
      by (auto split: if_splits)
    from decode_code_point [OF unit_scalar [OF False nt lt], of "escape (utf8_units (d # ds))"]
    show ?thesis
      using False lt 3(2) [OF False wf] by (simp add: escape_append UTF16EncodeCodePoint_def)
  qed
qed

subsection \<open>Base64: padding, stripping and decoding\<close>

text \<open>The 6-bit values of the base64 form of an octet sequence, without the padding.\<close>

fun sextets :: "nat list \<Rightarrow> nat list" where
  "sextets (a # b # c # rest) =
     (a div 4) # (a mod 4 * 16 + b div 16) # (b mod 16 * 4 + c div 64) # (c mod 64) # sextets rest"
| "sextets [a, b] = [a div 4, a mod 4 * 16 + b div 16, b mod 16 * 4]"
| "sextets [a] = [a div 4, a mod 4 * 16]"
| "sextets [] = []"

definition padding :: "nat list \<Rightarrow> nat" where
  "padding bs = (3 - length bs mod 3) mod 3"

lemma base64_encode_sextets:
  "base64_encode bs = map b64char (sextets bs) @ replicate (padding bs) 0x3D"
proof (induction bs rule: sextets.induct)
  case (1 a b c rest)
  have "padding (a # b # c # rest) = padding rest"
    by (simp add: padding_def mod_Suc)
  with 1 show ?case by simp
next
  case (2 a b)
  have "replicate (padding [a, b]) (0x3D::nat) = [0x3D]"
    by (simp add: padding_def)
  then show ?case by simp
next
  case (3 a)
  have "replicate (padding [a]) (0x3D::nat) = [0x3D, 0x3D]"
    by (simp add: padding_def numeral_2_eq_2)
  then show ?case by simp
next
  case 4
  then show ?case by (simp add: padding_def)
qed

lemma sextets_bound: "list_all (\<lambda>b. b < 256) bs \<Longrightarrow> list_all (\<lambda>v. v < 64) (sextets bs)"
proof (induction bs rule: sextets.induct)
  case (1 a b c rest)
  then have "a div 4 < 64" "b div 16 < 16" "c div 64 < 4" "a mod 4 < 4" "b mod 16 < 16"
    by (simp_all add: less_mult_imp_div_less)
  with 1 show ?case by (simp del: mod_less_divisor)
next
  case (2 a b)
  then have "a div 4 < 64" "b div 16 < 16" "a mod 4 < 4" "b mod 16 < 16"
    by (simp_all add: less_mult_imp_div_less)
  then show ?case by (simp del: mod_less_divisor)
next
  case (3 a)
  then have "a div 4 < 64" "a mod 4 < 4"
    by (simp_all add: less_mult_imp_div_less)
  then show ?case by (simp del: mod_less_divisor)
next
  case 4
  then show ?case by simp
qed

lemma base64_decode_sextets:
  "list_all (\<lambda>b. b < 256) bs \<Longrightarrow> base64_decode (sextets bs) = bs"
proof (induction bs rule: sextets.induct)
  case (1 a b c rest)
  then have "b div 16 < 16" "c div 64 < 4"
    by (simp_all add: less_mult_imp_div_less)
  with 1 show ?case by simp
next
  case (2 a b)
  then have "b div 16 < 16"
    by (simp_all add: less_mult_imp_div_less)
  then show ?case by simp
next
  case (3 a)
  then show ?case by simp
next
  case 4
  then show ?case by simp
qed

lemma b64val_b64char: "v < 64 \<Longrightarrow> b64val (b64char v) = Some v"
  by (auto simp add: b64val_def b64char_def is_upper_def is_lower_def is_digit_def)

lemma those_b64val:
  "list_all (\<lambda>v. v < 64) vs \<Longrightarrow> those (map b64val (map b64char vs)) = Some vs"
  by (induction vs) (simp_all add: b64val_b64char)


definition base64_char :: "nat \<Rightarrow> bool" where
  "base64_char c = (is_alnum c \<or> c = 0x2B \<or> c = 0x2F)"

lemma b64char_alphabet: "v < 64 \<Longrightarrow> base64_char (b64char v)"
  by (auto simp add: base64_char_def b64char_def is_alnum_def is_upper_def is_lower_def is_digit_def)

lemma base64_char_plain:
  "base64_char c \<Longrightarrow> c \<noteq> 0x3D \<and> c \<noteq> 0x2D \<and> c \<noteq> 0x5F \<and> \<not> ascii_whitespace c"
  by (auto simp add: base64_char_def is_alnum_def is_upper_def is_lower_def is_digit_def
      ascii_whitespace_def)

lemma body_alphabet:
  "list_all (\<lambda>b. b < 256) bs \<Longrightarrow> list_all base64_char (map b64char (sextets bs))"
  using sextets_bound [of bs] by (auto simp add: list_all_iff b64char_alphabet)

lemma length_sextets:
  "length (sextets bs) mod 4 = (if length bs mod 3 = 0 then 0 else length bs mod 3 + 1)"
proof (induction bs rule: sextets.induct)
  case (1 a b c rest)
  have "length (sextets (a # b # c # rest)) = 4 + length (sextets rest)"
    and "length (a # b # c # rest) = 3 + length rest"
    by simp_all
  with 1 show ?case by (simp only: mod_add_self1)
qed simp_all

lemma padding_le: "padding bs \<le> 2"
  by (simp add: padding_def)

lemma strip_trailing_replicate:
  "x \<notin> set xs \<Longrightarrow> strip_trailing x (xs @ replicate k x) = xs"
proof -
  assume x: "x \<notin> set xs"
  have "dropWhile (\<lambda>c. c = x) (replicate k x @ rev xs) = rev xs"
    using x by (induction k) (auto simp add: dropWhile_eq_self_iff hd_rev last_in_set)
  then show ?thesis by (simp add: strip_trailing_def)
qed

lemma strip_padding_replicate:
  "0x3D \<notin> set xs \<Longrightarrow> k \<le> 2 \<Longrightarrow> strip_padding (xs @ replicate k 0x3D) = xs"
proof -
  assume x: "0x3D \<notin> set xs" and k: "k \<le> 2"
  from k consider "k = 0" | "k = 1" | "k = 2" by linarith
  then show ?thesis
  proof cases
    case 1
    have "strip_padding xs = xs"
    proof (cases "rev xs")
      case Nil
      then show ?thesis by (simp add: strip_padding_def)
    next
      case (Cons a r)
      then have "a \<in> set xs" by (metis list.set_intros(1) set_rev)
      with x have "a \<noteq> 0x3D" by auto
      with Cons show ?thesis by (cases r) (simp_all add: strip_padding_def)
    qed
    with 1 show ?thesis by simp
  next
    case 2
    have "strip_padding (xs @ [0x3D]) = xs"
    proof (cases "rev xs")
      case Nil
      then show ?thesis by (simp add: strip_padding_def)
    next
      case (Cons a r)
      then have "a \<in> set xs" by (metis list.set_intros(1) set_rev)
      with x have "a \<noteq> 0x3D" by auto
      moreover from Cons have "xs = rev r @ [a]" by (metis rev.simps(2) rev_rev_ident)
      ultimately show ?thesis using Cons by (simp add: strip_padding_def)
    qed
    with 2 show ?thesis by simp
  next
    case 3
    then have "rev (xs @ replicate k 0x3D) = 0x3D # 0x3D # rev xs"
      by (simp add: numeral_2_eq_2)
    then show ?thesis by (simp add: strip_padding_def)
  qed
qed

lemma pad4_replicate: "pad4 xs = xs @ replicate ((4 - length xs mod 4) mod 4) 0x3D"
proof (induction xs rule: pad4.induct)
  case (1 b64)
  show ?case
  proof (cases "length b64 mod 4 = 0")
    case True
    then show ?thesis by (subst pad4.simps) simp
  next
    case False
    then consider "length b64 mod 4 = 1" | "length b64 mod 4 = 2" | "length b64 mod 4 = 3"
      by linarith
    then have "\<exists>k. (4 - length b64 mod 4) mod 4 = Suc k \<and> (4 - Suc (length b64) mod 4) mod 4 = k"
      by cases (simp_all add: mod_Suc)
    then obtain k where k: "(4 - length b64 mod 4) mod 4 = Suc k"
      "(4 - Suc (length b64) mod 4) mod 4 = k"
      by blast
    have "pad4 b64 = pad4 (b64 @ [0x3D])"
      using False by (subst pad4.simps) simp
    also have "\<dots> = (b64 @ [0x3D]) @ replicate k 0x3D"
      using 1 [OF False] k(2) by simp
    finally show ?thesis
      by (simp add: k(1))
  qed
qed

lemma pad4_body: "pad4 (map b64char (sextets bs)) = base64_encode bs"
proof -
  have "(4 - length (sextets bs) mod 4) mod 4 = padding bs"
    unfolding length_sextets padding_def
    by (cases "length bs mod 3 = 0") (auto simp add: mod_Suc) 
  then show ?thesis
    by (simp add: pad4_replicate base64_encode_sextets)
qed

subsection \<open>The identifier codec round-trips and is URL-safe\<close>

lemma filter_no_whitespace:
  "list_all base64_char xs \<Longrightarrow> filter (\<lambda>c. \<not> ascii_whitespace c) (xs @ replicate k 0x3D) = xs @ replicate k 0x3D"
proof -
  assume a: "list_all base64_char xs"
  have "\<not> ascii_whitespace c" if "c \<in> set (xs @ replicate k 0x3D)" for c
  proof (cases "c \<in> set xs")
    case True
    with a have "base64_char c" by (simp add: list_all_iff)
    then show ?thesis using base64_char_plain [of c] by simp
  next
    case False
    with that have "c = 0x3D" by (auto split: if_splits)
    then show ?thesis by (simp add: ascii_whitespace_def)
  qed
  then show ?thesis
    by (simp only: filter_id_conv) blast
qed

lemma base64_char_no_pad: "list_all base64_char xs \<Longrightarrow> 0x3D \<notin> set xs"
proof
  assume "list_all base64_char xs" and "0x3D \<in> set xs"
  then have "base64_char 0x3D" by (simp add: list_all_iff)
  then show False using base64_char_plain [of "0x3D"] by simp
qed

lemma length_base64_encode: "length (base64_encode bs) mod 4 = 0"
proof (induction bs rule: base64_encode.induct)
  case (1 a b c rest)
  have "length (base64_encode (a # b # c # rest)) = 4 + length (base64_encode rest)"
    by simp
  with 1 show ?case by (simp only: mod_add_self1)
qed simp_all

lemma atob_base64_encode:
  assumes "list_all (\<lambda>b. b < 256) bs"
  shows "atob (base64_encode bs) = Some bs"
proof -
  let ?body = "map b64char (sextets bs)"
  have body: "list_all base64_char ?body"
    using assms by (rule body_alphabet)
  then have no_eq: "0x3D \<notin> set ?body"
    by (rule base64_char_no_pad)
  have f: "filter (\<lambda>c. \<not> ascii_whitespace c) (base64_encode bs) = base64_encode bs"
    unfolding base64_encode_sextets using body by (rule filter_no_whitespace)
  have s: "strip_padding (base64_encode bs) = ?body"
    unfolding base64_encode_sextets using no_eq padding_le by (rule strip_padding_replicate)
  have l: "length ?body mod 4 \<noteq> 1"
    by (simp add: length_sextets)
  have t: "those (map b64val ?body) = Some (sextets bs)"
    using sextets_bound [OF assms] by (rule those_b64val)
  show ?thesis
    using l
    by (simp add: atob_def f s t length_base64_encode base64_decode_sextets [OF assms]
        del: map_map)
qed

lemma replace_all_append: "replace_all x y (xs @ ys) = replace_all x y xs @ replace_all x y ys"
  by (simp add: replace_all_def)

lemma replace_all_replicate: "c \<noteq> x \<Longrightarrow> replace_all x y (replicate k c) = replicate k c"
  by (simp add: replace_all_def)

lemma replace_undo:
  "list_all base64_char xs \<Longrightarrow>
   replace_all 0x5F 0x2F (replace_all 0x2D 0x2B (replace_all 0x2F 0x5F (replace_all 0x2B 0x2D xs))) = xs"
  by (induction xs) (auto simp add: replace_all_def dest: base64_char_plain)

definition base64url_char :: "nat \<Rightarrow> bool" where
  "base64url_char c = (is_alnum c \<or> c = 0x2D \<or> c = 0x5F)"

lemma replace_url_safe:
  "list_all base64_char xs \<Longrightarrow>
   list_all base64url_char (replace_all 0x2F 0x5F (replace_all 0x2B 0x2D xs))"
  by (induction xs) (auto simp add: replace_all_def base64_char_def base64url_char_def)

lemma id_of_octets:
  assumes "list_all (\<lambda>b. b < 256) bs"
  shows "strip_trailing 0x3D (replace_all 0x2F 0x5F (replace_all 0x2B 0x2D (base64_encode bs)))
         = replace_all 0x2F 0x5F (replace_all 0x2B 0x2D (map b64char (sextets bs)))"
proof -
  let ?body = "map b64char (sextets bs)"
  let ?safe = "replace_all 0x2F 0x5F (replace_all 0x2B 0x2D ?body)"
  have "list_all base64url_char ?safe"
    using body_alphabet [OF assms] by (rule replace_url_safe)
  then have "0x3D \<notin> set ?safe"
    by (auto simp add: list_all_iff base64url_char_def is_alnum_def is_upper_def is_lower_def is_digit_def)
  then have "strip_trailing 0x3D (?safe @ replicate (padding bs) 0x3D) = ?safe"
    by (rule strip_trailing_replicate)
  then show ?thesis
    by (simp add: base64_encode_sextets replace_all_append replace_all_replicate)
qed

lemma btoa_octets: "list_all (\<lambda>b. b < 256) bs \<Longrightarrow> btoa bs = Some (base64_encode bs)"
  by (auto simp add: btoa_def list_all_iff)

lemma btoa_Some: "btoa s = Some b \<Longrightarrow> list_all (\<lambda>b. b < 256) s \<and> b = base64_encode s"
  by (auto simp add: btoa_def list_all_iff split: if_splits)

lemma idToUri_of_octets:
  assumes "list_all (\<lambda>b. b < 256) bs"
  shows "idToUri (replace_all 0x2F 0x5F (replace_all 0x2B 0x2D (map b64char (sextets bs))))
         = decodeURIComponent (escape bs)"
  using replace_undo [OF body_alphabet [OF assms]] atob_base64_encode [OF assms]
  by (simp add: idToUri_def pad4_body)


lemma well_formed_code_units: "well_formed s \<Longrightarrow> code_units s"
  by (induction s rule: well_formed.induct)
    (auto simp add: code_units_def is_lead_def is_trail_def split: if_splits list.splits)

lemma encodeURIComponent_unpaired:
  "\<not> well_formed s \<Longrightarrow> code_units s \<Longrightarrow> encodeURIComponent s = None"
proof (induction s rule: well_formed.induct)
  case 1
  then show ?case by simp
next
  case (2 c cs)
  show ?case
  proof (cases "uriUnreserved c")
    case True
    with 2 uriUnreserved_not_surrogate [of c] show ?thesis
      by (auto simp add: code_units_def)
  next
    case False
    with 2 show ?thesis
      by (cases cs) (auto simp add: code_units_def split: if_splits)
  qed
qed

lemma base64url_unreserved: "base64url_char c \<Longrightarrow> uriUnreserved c"
  by (auto simp add: base64url_char_def uriUnreserved_def)

lemma encodeURIComponent_url_safe:
  "list_all base64url_char s \<Longrightarrow> encodeURIComponent s = Some s"
  by (induction s) (simp_all add: base64url_unreserved)

lemma uriToId_well_formed:
  assumes "well_formed uri"
  shows "uriToId uri
         = Some (replace_all 0x2F 0x5F (replace_all 0x2B 0x2D (map b64char (sextets (utf8_units uri)))))"
proof -
  from encodeURIComponent_utf8 [OF assms] obtain e where
    e: "encodeURIComponent uri = Some e" and u: "unescape e = utf8_units uri"
    by blast
  have oct: "list_all (\<lambda>b. b < 256) (utf8_units uri)"
    using assms by (rule utf8_units_octets)
  show ?thesis
    by (simp add: uriToId_def e u btoa_octets [OF oct] id_of_octets [OF oct])
qed

text \<open>
  C1. For every well-formed string (every sequence of Unicode scalar values: ASCII,
  non-ASCII, reserved characters alike) \<open>uriToId\<close> returns an identifier and \<open>idToUri\<close>
  of that identifier returns the string.
\<close>

theorem codec_round_trip:
  assumes "well_formed uri"
  shows "\<exists>ident. uriToId uri = Some ident \<and> idToUri ident = Some uri"
proof -
  let ?ident = "replace_all 0x2F 0x5F (replace_all 0x2B 0x2D (map b64char (sextets (utf8_units uri))))"
  have oct: "list_all (\<lambda>b. b < 256) (utf8_units uri)"
    using assms by (rule utf8_units_octets)
  have "uriToId uri = Some ?ident"
    using assms by (rule uriToId_well_formed)
  moreover have "idToUri ?ident = decodeURIComponent (escape (utf8_units uri))"
    using oct by (rule idToUri_of_octets)
  moreover have "decodeURIComponent (escape (utf8_units uri)) = Some uri"
    using assms by (rule decodeURIComponent_escape_utf8)
  ultimately show ?thesis by simp
qed

theorem codec_round_trip_witness:
  "well_formed (js ''/Caf'' @ [0xE9, 0x20AC, 0xD83D, 0xDE00] @ js ''?a=b'')
   \<and> (\<exists>ident. uriToId (js ''/Caf'' @ [0xE9, 0x20AC, 0xD83D, 0xDE00] @ js ''?a=b'') = Some ident
         \<and> idToUri ident = Some (js ''/Caf'' @ [0xE9, 0x20AC, 0xD83D, 0xDE00] @ js ''?a=b''))"
proof -
  have w: "well_formed (js ''/Caf'' @ [0xE9, 0x20AC, 0xD83D, 0xDE00] @ js ''?a=b'')"
    by (simp add: js_def is_lead_def is_trail_def)
  show ?thesis
    using w codec_round_trip [OF w] by blast
qed

text \<open>
  C8. Whenever \<open>uriToId\<close> returns, every character of the identifier is a letter, a
  digit, \<open>-\<close> or \<open>_\<close>; so it has no \<open>+\<close>, \<open>/\<close> or \<open>=\<close>, and
  \<open>encodeURIComponent\<close> leaves it as it is (nothing in it needs percent-encoding). It
  returns for every well-formed string.
\<close>

theorem uriToId_url_safe:
  "(\<forall>ident. uriToId uri = Some ident \<longrightarrow>
      list_all base64url_char ident \<and> 0x2B \<notin> set ident \<and> 0x2F \<notin> set ident \<and> 0x3D \<notin> set ident
      \<and> encodeURIComponent ident = Some ident)
   \<and> (well_formed uri \<longrightarrow> uriToId uri \<noteq> None)"
proof (intro conjI allI impI)
  fix ident
  assume a: "uriToId uri = Some ident"
  then obtain e b where e: "encodeURIComponent uri = Some e" and b: "btoa (unescape e) = Some b"
    and i: "ident = strip_trailing 0x3D (replace_all 0x2F 0x5F (replace_all 0x2B 0x2D b))"
    by (auto simp add: uriToId_def split: option.splits)
  from btoa_Some [OF b] have oct: "list_all (\<lambda>b. b < 256) (unescape e)"
    and b': "b = base64_encode (unescape e)"
    by simp_all
  show safe: "list_all base64url_char ident"
    unfolding i b' id_of_octets [OF oct]
    using body_alphabet [OF oct] by (rule replace_url_safe)
  then have "\<forall>c\<in>set ident. base64url_char c"
    by (simp add: list_all_iff)
  then show "0x2B \<notin> set ident" "0x2F \<notin> set ident" "0x3D \<notin> set ident"
    by (auto simp add: base64url_char_def is_alnum_def is_upper_def is_lower_def is_digit_def)
  from safe show "encodeURIComponent ident = Some ident"
    by (rule encodeURIComponent_url_safe)
next
  assume "well_formed uri"
  from uriToId_well_formed [OF this] show "uriToId uri \<noteq> None" by simp
qed

theorem uriToId_url_safe_witness:
  "well_formed (js ''http://dbpedia.org/resource/C++?'' @ [0xE9])
   \<and> (\<exists>ident. uriToId (js ''http://dbpedia.org/resource/C++?'' @ [0xE9]) = Some ident
         \<and> list_all base64url_char ident \<and> 0x2B \<notin> set ident \<and> 0x2F \<notin> set ident
         \<and> 0x3D \<notin> set ident \<and> encodeURIComponent ident = Some ident)"
proof -
  have w: "well_formed (js ''http://dbpedia.org/resource/C++?'' @ [0xE9])"
    by (simp add: js_def is_lead_def is_trail_def)
  show ?thesis
    using w uriToId_url_safe [of "js ''http://dbpedia.org/resource/C++?'' @ [0xE9]"] by blast
qed

section \<open>Type facets extension (extensions/typeFacets)\<close>

text \<open>
  The fetch effect of \<open>TypeFacets\<close> cleans the category id and builds the request URL:
  \<^verbatim>\<open>
  const cleanId = categoryId.replace(/\?+$/, "");
  fetch(`${API_BASE}/api/category/${encodeURIComponent(cleanId)}/facets/types?limit=15`)
  \<close>
  \<open>API_BASE\<close> is read from the build environment and is a parameter here. The URL is
  \<open>None\<close> when \<open>encodeURIComponent\<close> throws.
\<close>

definition cleanId :: "jsstring \<Rightarrow> jsstring" where
  "cleanId categoryId = strip_trailing 0x3F categoryId"

definition facets_url :: "jsstring \<Rightarrow> jsstring \<Rightarrow> jsstring option" where
  "facets_url API_BASE categoryId =
     (case encodeURIComponent (cleanId categoryId) of
        None \<Rightarrow> None
      | Some e \<Rightarrow> Some (API_BASE @ js ''/api/category/'' @ e @ js ''/facets/types?limit=15''))"

lemma strip_trailing_append_replicate:
  "strip_trailing x (s @ replicate n x) = strip_trailing x s"
proof -
  have "dropWhile (\<lambda>c. c = x) (replicate n x @ rev s) = dropWhile (\<lambda>c. c = x) (rev s)"
    by (induction n) simp_all
  then show ?thesis by (simp add: strip_trailing_def)
qed

lemma strip_trailing_decompose:
  "\<exists>k. s = strip_trailing x s @ replicate k x"
proof -
  have "takeWhile (\<lambda>c. c = x) (rev s) = replicate (length (takeWhile (\<lambda>c. c = x) (rev s))) x"
    by (rule replicate_length_same [symmetric]) (auto dest: set_takeWhileD)
  moreover have "rev s = takeWhile (\<lambda>c. c = x) (rev s) @ dropWhile (\<lambda>c. c = x) (rev s)"
    by simp
  ultimately have "rev s = replicate (length (takeWhile (\<lambda>c. c = x) (rev s))) x
      @ dropWhile (\<lambda>c. c = x) (rev s)"
    by simp
  then have "rev (rev s) = rev (replicate (length (takeWhile (\<lambda>c. c = x) (rev s))) x
      @ dropWhile (\<lambda>c. c = x) (rev s))"
    by (rule arg_cong)
  then have "s = strip_trailing x s @ replicate (length (takeWhile (\<lambda>c. c = x) (rev s))) x"
    by (simp add: strip_trailing_def)
  then show ?thesis ..
qed

lemma strip_trailing_last: "strip_trailing x s \<noteq> [] \<Longrightarrow> last (strip_trailing x s) \<noteq> x"
proof -
  assume ne: "strip_trailing x s \<noteq> []"
  then have d: "dropWhile (\<lambda>c. c = x) (rev s) \<noteq> []"
    by (simp add: strip_trailing_def)
  then have "hd (dropWhile (\<lambda>c. c = x) (rev s)) \<noteq> x"
    using hd_dropWhile [of "\<lambda>c. c = x" "rev s"] by simp
  with d show ?thesis
    by (simp add: strip_trailing_def last_rev)
qed

text \<open>
  C10. \<open>cleanId\<close> removes the whole run of \<open>?\<close> at the end of the category id: the id
  is the cleaned id followed by question marks only, and the cleaned id does not end in
  \<open>?\<close>. So two ids that differ only in trailing question marks give the same
  facets request URL.
\<close>

theorem facets_url_trailing_question_marks:
  "(\<exists>k. categoryId = cleanId categoryId @ replicate k 0x3F)
   \<and> (cleanId categoryId = [] \<or> last (cleanId categoryId) \<noteq> 0x3F)
   \<and> cleanId (categoryId @ replicate n 0x3F) = cleanId categoryId
   \<and> facets_url API_BASE (categoryId @ replicate n 0x3F) = facets_url API_BASE (categoryId @ replicate m 0x3F)"
  using strip_trailing_decompose [of categoryId "0x3F"] strip_trailing_last [of "0x3F" categoryId]
  by (auto simp add: cleanId_def facets_url_def strip_trailing_append_replicate)

theorem facets_url_trailing_question_marks_witness:
  "facets_url (js ''http://localhost:8000'') (js ''Q2F0??'')
     = Some (js ''http://localhost:8000/api/category/Q2F0/facets/types?limit=15'')
   \<and> facets_url (js ''http://localhost:8000'') (js ''Q2F0?'')
     = Some (js ''http://localhost:8000/api/category/Q2F0/facets/types?limit=15'')
   \<and> cleanId (js ''Q2F0??'') = js ''Q2F0''"
proof -
  have a: "facets_url (js ''http://localhost:8000'') (js ''Q2F0'' @ replicate 0 0x3F)
     = Some (js ''http://localhost:8000/api/category/Q2F0/facets/types?limit=15'')"
    by (simp add: facets_url_def cleanId_def strip_trailing_def js_def uriUnreserved_def
        is_alnum_def is_upper_def is_lower_def is_digit_def)
  have r: "js ''Q2F0??'' = js ''Q2F0'' @ replicate 2 0x3F" "js ''Q2F0?'' = js ''Q2F0'' @ replicate 1 0x3F"
    by (simp_all add: js_def numeral_2_eq_2)
  show ?thesis
    unfolding r
    using a facets_url_trailing_question_marks [of "js ''Q2F0''" 2 "js ''http://localhost:8000''" 0]
      facets_url_trailing_question_marks [of "js ''Q2F0''" 1 "js ''http://localhost:8000''" 0]
    by (simp add: cleanId_def strip_trailing_def js_def)
qed

section \<open>JavaScript numbers\<close>

text \<open>
  A JavaScript number is an IEEE 754 binary64 value. The finite ones are rationals, and
  every arithmetic operation returns the exact result rounded to the nearest double, ties
  to the double with an even significand. \<open>exponent v\<close> is the binary exponent of the
  binade of \<open>v\<close>, not below \<open>-1022\<close> (subnormals); a double of that binade is a multiple of
  \<open>2 powi (exponent v - 52)\<close>. Overflow to \<open>Infinity\<close> is not modelled: the operands of the
  layout below lie between 0 and 280.
\<close>

type_synonym number = rat

fun exponent_search :: "nat \<Rightarrow> int \<Rightarrow> rat \<Rightarrow> int" where
  "exponent_search 0 e v = e"
| "exponent_search (Suc k) e v = (if 2 powi e \<le> v then e else exponent_search k (e - 1) v)"

definition exponent :: "rat \<Rightarrow> int" where
  "exponent v = exponent_search 2045 1023 \<bar>v\<bar>"

definition round_half_even :: "rat \<Rightarrow> int" where
  "round_half_even q =
     (let f = \<lfloor>q\<rfloor>; r = q - of_int f
      in if r < 1 / 2 then f else if 1 / 2 < r then f + 1 else if even f then f else f + 1)"

definition round_double :: "rat \<Rightarrow> number" where
  "round_double v =
     (if v = 0 then 0
      else (let ulp = 2 powi (exponent v - 52) in of_int (round_half_even (v / ulp)) * ulp))"

definition num_add :: "number \<Rightarrow> number \<Rightarrow> number" where
  "num_add a b = round_double (a + b)"

definition num_sub :: "number \<Rightarrow> number \<Rightarrow> number" where
  "num_sub a b = round_double (a - b)"

definition num_mul :: "number \<Rightarrow> number \<Rightarrow> number" where
  "num_mul a b = round_double (a * b)"

definition num_div :: "number \<Rightarrow> number \<Rightarrow> number" where
  "num_div a b = round_double (a / b)"

lemma exponent_search_eq:
  assumes "2 powi e \<le> v" and "v < 2 powi (e + 1)" and "e \<le> e0" and "e0 - int k \<le> e"
  shows "exponent_search k e0 v = e"
  using assms
proof (induction k arbitrary: e0)
  case 0
  then show ?case by simp
next
  case (Suc k)
  show ?case
  proof (cases "e0 = e")
    case True
    with Suc.prems show ?thesis by simp
  next
    case False
    with Suc.prems have lt: "e + 1 \<le> e0" by simp
    have "(2::rat) powi (e + 1) \<le> 2 powi e0"
      using lt by (intro power_int_increasing) simp_all
    with Suc.prems have "\<not> 2 powi e0 \<le> v" by simp
    moreover have "exponent_search k (e0 - 1) v = e"
      using Suc.prems lt by (intro Suc.IH) simp_all
    ultimately show ?thesis by simp
  qed
qed

lemma exponent_eq:
  "2 powi e \<le> \<bar>v\<bar> \<Longrightarrow> \<bar>v\<bar> < 2 powi (e + 1) \<Longrightarrow> - 1022 \<le> e \<Longrightarrow> e \<le> 1023 \<Longrightarrow> exponent v = e"
  unfolding exponent_def by (rule exponent_search_eq) simp_all

lemma round_half_even_eq:
  assumes "of_int n - 1 / 2 < q" and "q < of_int n + 1 / 2"
  shows "round_half_even q = n"
proof -
  let ?f = "\<lfloor>q\<rfloor>"
  have f1: "of_int ?f \<le> q" and f2: "q < of_int ?f + 1" by linarith+
  have "of_int n - 1 < (of_int ?f :: rat) + 1" using assms f1 f2 by linarith
  then have a: "n - 1 < ?f + 1" by (metis of_int_less_iff of_int_diff of_int_add of_int_1)
  have "(of_int ?f :: rat) < of_int n + 1" using assms f1 f2 by linarith
  then have b: "?f < n + 1" by (metis of_int_less_iff of_int_add of_int_1)
  from a b consider "?f = n" | "?f = n - 1" by linarith
  then show ?thesis
  proof cases
    case 1
    then have "q - of_int ?f < 1 / 2" using assms by simp
    then show ?thesis using 1 by (simp add: round_half_even_def Let_def)
  next
    case 2
    then have "1 / 2 < q - of_int ?f" using assms by simp
    then show ?thesis using 2 by (simp add: round_half_even_def Let_def)
  qed
qed

lemma round_half_even_tie:
  assumes "q = of_int f + 1 / 2"
  shows "round_half_even q = (if even f then f else f + 1)"
proof -
  have "\<lfloor>q\<rfloor> = f" using assms by linarith
  then show ?thesis using assms by (simp add: round_half_even_def Let_def)
qed

lemma round_double_eq:
  assumes "2 powi e \<le> \<bar>v\<bar>" and "\<bar>v\<bar> < 2 powi (e + 1)" and "- 1022 \<le> e" and "e \<le> 1023"
    and "of_int n - 1 / 2 < v / 2 powi (e - 52)" and "v / 2 powi (e - 52) < of_int n + 1 / 2"
  shows "round_double v = of_int n * 2 powi (e - 52)"
proof -
  have "exponent v = e" using assms(1-4) by (rule exponent_eq)
  moreover have "(0::rat) < 2 powi e" by (rule zero_less_power_int) simp
  then have "0 < \<bar>v\<bar>" using assms(1) by (rule less_le_trans)
  then have "v \<noteq> 0" by simp
  moreover have "round_half_even (v / 2 powi (e - 52)) = n" using assms(5,6) by (rule round_half_even_eq)
  ultimately show ?thesis by (simp add: round_double_def Let_def)
qed

lemma round_double_tie:
  assumes "2 powi e \<le> \<bar>v\<bar>" and "\<bar>v\<bar> < 2 powi (e + 1)" and "- 1022 \<le> e" and "e \<le> 1023"
    and "v / 2 powi (e - 52) = of_int f + 1 / 2"
  shows "round_double v = of_int (if even f then f else f + 1) * 2 powi (e - 52)"
proof -
  have "exponent v = e" using assms(1-4) by (rule exponent_eq)
  moreover have "(0::rat) < 2 powi e" by (rule zero_less_power_int) simp
  then have "0 < \<bar>v\<bar>" using assms(1) by (rule less_le_trans)
  then have "v \<noteq> 0" by simp
  moreover have "round_half_even (v / 2 powi (e - 52)) = (if even f then f else f + 1)"
    using assms(5) by (rule round_half_even_tie)
  ultimately show ?thesis by (simp add: round_double_def Let_def)
qed

lemma round_double_zero: "round_double 0 = 0"
  by (simp add: round_double_def)

text \<open>The roundings that occur in the layout of at most six nodes on a side.\<close>

lemma round_double_0: "round_double (1) = 1"
  using round_double_eq [of "0" "1" "4503599627370496"] by simp

lemma round_double_1: "round_double (2) = 2"
  using round_double_eq [of "1" "2" "4503599627370496"] by simp

lemma round_double_2: "round_double (3) = 3"
  using round_double_eq [of "1" "3" "6755399441055744"] by simp

lemma round_double_3: "round_double (4) = 4"
  using round_double_eq [of "2" "4" "4503599627370496"] by simp

lemma round_double_4: "round_double (5) = 5"
  using round_double_eq [of "2" "5" "5629499534213120"] by simp

lemma round_double_5: "round_double (128 / 5) = 3602879701896397 / 140737488355328"
  using round_double_eq [of "4" "128 / 5" "7205759403792794"] by simp

lemma round_double_6: "round_double (3602879701896397 / 140737488355328) = 3602879701896397 / 140737488355328"
  using round_double_eq [of "4" "3602879701896397 / 140737488355328" "7205759403792794"] by simp

lemma round_double_7: "round_double (26) = 26"
  using round_double_eq [of "4" "26" "7318349394477056"] by simp

lemma round_double_8: "round_double (32) = 32"
  using round_double_eq [of "5" "32" "4503599627370496"] by simp

lemma round_double_9: "round_double (6004799503160661 / 140737488355328) = 6004799503160661 / 140737488355328"
  using round_double_eq [of "5" "6004799503160661 / 140737488355328" "6004799503160661"] by simp

lemma round_double_10: "round_double (128 / 3) = 6004799503160661 / 140737488355328"
  using round_double_eq [of "5" "128 / 3" "6004799503160661"] by simp

lemma round_double_11: "round_double (3602879701896397 / 70368744177664) = 3602879701896397 / 70368744177664"
  using round_double_eq [of "5" "3602879701896397 / 70368744177664" "7205759403792794"] by simp

lemma round_double_12: "round_double (7262054399134925 / 140737488355328) = 7262054399134925 / 140737488355328"
  using round_double_eq [of "5" "7262054399134925 / 140737488355328" "7262054399134925"] by simp

lemma round_double_13: "round_double (58) = 58"
  using round_double_eq [of "5" "58" "8162774324609024"] by simp

lemma round_double_14: "round_double (64) = 64"
  using round_double_eq [of "6" "64" "4503599627370496"] by simp

lemma round_double_15: "round_double (9663974200399189 / 140737488355328) = 2415993550099797 / 35184372088832"
  using round_double_tie [of "6" "9663974200399189 / 140737488355328" "4831987100199594"] by simp

lemma round_double_16: "round_double (10808639105689191 / 140737488355328) = 1351079888211149 / 17592186044416"
  using round_double_tie [of "6" "10808639105689191 / 140737488355328" "5404319552844595"] by simp

lemma round_double_17: "round_double (5432467050515661 / 70368744177664) = 5432467050515661 / 70368744177664"
  using round_double_eq [of "6" "5432467050515661 / 70368744177664" "5432467050515661"] by simp

lemma round_double_18: "round_double (6004799503160661 / 70368744177664) = 6004799503160661 / 70368744177664"
  using round_double_eq [of "6" "6004799503160661 / 70368744177664" "6004799503160661"] by simp

lemma round_double_19: "round_double (90) = 90"
  using round_double_eq [of "6" "90" "6333186975989760"] by simp

lemma round_double_20: "round_double (96) = 96"
  using round_double_eq [of "6" "96" "6755399441055744"] by simp

lemma round_double_21: "round_double (3602879701896397 / 35184372088832) = 3602879701896397 / 35184372088832"
  using round_double_eq [of "6" "3602879701896397 / 35184372088832" "7205759403792794"] by simp

lemma round_double_22: "round_double (1808476725365965 / 17592186044416) = 1808476725365965 / 17592186044416"
  using round_double_eq [of "6" "1808476725365965 / 17592186044416" "7233906901463860"] by simp

lemma round_double_23: "round_double (7834386851779925 / 70368744177664) = 7834386851779925 / 70368744177664"
  using round_double_eq [of "6" "7834386851779925 / 70368744177664" "7834386851779925"] by simp

lemma round_double_24: "round_double (122) = 122"
  using round_double_eq [of "6" "122" "8584986789675008"] by simp

lemma round_double_25: "round_double (18014398509481983 / 140737488355328) = 128"
  using round_double_tie [of "6" "18014398509481983 / 140737488355328" "9007199254740991"] by simp

lemma round_double_26: "round_double (128) = 128"
  using round_double_eq [of "7" "128" "4503599627370496"] by simp

lemma round_double_27: "round_double (18014398509481985 / 140737488355328) = 128"
  using round_double_eq [of "7" "18014398509481985 / 140737488355328" "4503599627370496"] by simp

lemma round_double_28: "round_double (4517673376206029 / 35184372088832) = 4517673376206029 / 35184372088832"
  using round_double_eq [of "7" "4517673376206029 / 35184372088832" "4517673376206029"] by simp

lemma round_double_29: "round_double (140) = 140"
  using round_double_eq [of "7" "140" "4925812092436480"] by simp

lemma round_double_30: "round_double (154) = 154"
  using round_double_eq [of "7" "154" "5418393301680128"] by simp

lemma round_double_31: "round_double (228) = 228"
  using round_double_eq [of "7" "228" "8022036836253696"] by simp

lemmas round_double_values =
  round_double_zero
  round_double_0
  round_double_1
  round_double_2
  round_double_3
  round_double_4
  round_double_5
  round_double_6
  round_double_7
  round_double_8
  round_double_9
  round_double_10
  round_double_11
  round_double_12
  round_double_13
  round_double_14
  round_double_15
  round_double_16
  round_double_17
  round_double_18
  round_double_19
  round_double_20
  round_double_21
  round_double_22
  round_double_23
  round_double_24
  round_double_25
  round_double_26
  round_double_27
  round_double_28
  round_double_29
  round_double_30
  round_double_31

section \<open>Category map extension (extensions/CategoryMap)\<close>

text \<open>
  The layout is the \<open>useMemo\<close> block of \<open>CategoryMap\<close>; it is \<open>null\<close> until the
  category has been fetched. The coordinates are JavaScript numbers, and every operation
  of the source rounds as above.
\<close>

record CategoryRef =
  ref_uri :: jsstring
  ref_id :: jsstring
  ref_label :: jsstring

record CategoryDetails =
  cat_uri :: jsstring
  cat_id :: jsstring
  cat_label :: jsstring
  broader :: "CategoryRef list"
  narrower :: "CategoryRef list"
  entityCount :: nat






definition W :: number where
  "W = 280"

definition H :: number where
  "H = 180"

definition cx :: number where
  "cx = num_div W 2"

definition cy :: number where
  "cy = num_div H 2"

definition leftX :: number where
  "leftX = 52"

definition rightX :: number where
  "rightX = num_sub W 52"

definition spreadY :: "nat \<Rightarrow> number list" where
  "spreadY n =
     (if n \<le> 1 then [cy]
      else
        (let top = 26; bottom = num_sub H 26; step = num_div (num_sub bottom top) (num_sub (of_nat n) 1)
         in map (\<lambda>i. num_add top (num_mul (of_nat i) step)) [0..<n]))"




lemma canvas: "W = 280" "H = 180" "cx = 140" "cy = 90" "leftX = 52" "rightX = 228"
  by (simp_all add: W_def H_def cx_def cy_def leftX_def rightX_def num_div_def num_sub_def round_double_values)

lemma length_spreadY: "length (spreadY n) = max n 1"
  by (simp add: spreadY_def Let_def)

lemma spreadY_0: "spreadY 0 = [90]"
  and spreadY_1: "spreadY 1 = [90]"
  by (simp_all add: spreadY_def canvas)































definition example_category :: CategoryDetails where
  "example_category =
     \<lparr>cat_uri = js ''http://dbpedia.org/resource/Category:Cats'', cat_id = js ''Q2F0cw'',
      cat_label = js ''Cats'',
      broader = map (\<lambda>s. \<lparr>ref_uri = js s, ref_id = js s, ref_label = js s\<rparr>) [''a'', ''b'', ''c'', ''d'', ''e''],
      narrower = map (\<lambda>s. \<lparr>ref_uri = js s, ref_id = js s, ref_label = js s\<rparr>) [''f''],
      entityCount = 12\<rparr>"






section \<open>Search page (pages/SearchPage.tsx)\<close>

subsection \<open>String.prototype.trim\<close>

definition js_whitespace :: "nat \<Rightarrow> bool" where
  \<comment> \<open>WhiteSpace and LineTerminator of ECMAScript\<close>
  "js_whitespace c =
     (c \<in> set [0x09, 0x0A, 0x0B, 0x0C, 0x0D, 0x20, 0xA0, 0x1680, 0x2028, 0x2029, 0x202F, 0x205F,
                0x3000, 0xFEFF]
      \<or> (0x2000 \<le> c \<and> c \<le> 0x200A))"

definition trim :: "jsstring \<Rightarrow> jsstring" where
  "trim s = rev (dropWhile js_whitespace (rev (dropWhile js_whitespace s)))"

text \<open>
  The \<open>length\<close> of a string counts UTF-16 code units. A character outside the Basic
  Multilingual Plane is a surrogate pair, two code units: \<open>characters\<close> counts the code
  points of a string, an unpaired surrogate being one.
\<close>

fun characters :: "jsstring \<Rightarrow> nat" where
  "characters [] = 0"
| "characters [u] = 1"
| "characters (u # v # us) =
     (if is_lead u \<and> is_trail v then Suc (characters us) else Suc (characters (v # us)))"

subsection \<open>State of the component\<close>

datatype SearchKind = kind_category | kind_entity | kind_all

record SearchResult =
  sr_uri :: jsstring
  sr_id :: jsstring
  sr_label :: jsstring
  sr_kind :: SearchKind

text \<open>
  What the promise of \<open>search\<close> resolves to is the parsed JSON body, unvalidated: the
  page reads four of its fields, each with a default (\<open>data.results ?? []\<close>,
  \<open>data.total ?? 0\<close>, ...). A field that is absent is \<open>None\<close>. Numbers are integers
  here.
\<close>

record SearchData =
  data_results :: "SearchResult list option"
  data_total :: "int option"
  data_entityTotal :: "int option"
  data_categoryTotal :: "int option"

datatype 'a outcome = Resolved 'a | Rejected jsstring

record search_call =
  call_q :: jsstring
  call_kind :: SearchKind
  call_limit :: int
  call_offset :: int

text \<open>
  The \<open>useState\<close> values, and what React and the closures of the fetch effect hold:
  the dependency values of the last run of each effect (\<open>None\<close> before the first
  render), the local variable \<open>cancelled\<close> of every run of the fetch effect (run \<open>i\<close>
  is entry \<open>i\<close>), the run whose cleanup function React holds, the calls of \<open>search\<close>
  issued so far with the run that issued them, and the runs whose promise has not
  settled yet.
\<close>

record SearchPage =
  qInput :: jsstring
  submittedQ :: jsstring
  kind :: SearchKind
  loading :: bool
  err :: "jsstring option"
  results :: "SearchResult list"
  page :: int
  total :: int
  entityTotal :: int
  categoryTotal :: int
  kind_deps :: "SearchKind option"
  fetch_deps :: "(jsstring \<times> SearchKind \<times> int) option"
  cancelled :: "bool list"
  cleanup :: "nat option"
  requests :: "(nat \<times> search_call) list"
  pending :: "nat list"

definition LIMIT :: int where
  "LIMIT = 20"

definition initial :: SearchPage where
  "initial =
     \<lparr>qInput = [], submittedQ = [], kind = kind_all, loading = False, err = None, results = [],
      page = 1, total = 0, entityTotal = 0, categoryTotal = 0,
      kind_deps = None, fetch_deps = None, cancelled = [], cleanup = None, requests = [],
      pending = []\<rparr>"

subsection \<open>Effects\<close>

text \<open>\<^verbatim>\<open>useEffect(() => { setPage(1); }, [kind]);\<close>\<close>

definition kind_effect :: "SearchPage \<Rightarrow> SearchPage" where
  "kind_effect s = s\<lparr>page := 1\<rparr>"

text \<open>The cleanup function of a run of the fetch effect: \<open>cancelled = true\<close>.\<close>

definition run_cleanup :: "SearchPage \<Rightarrow> SearchPage" where
  "run_cleanup s =
     (case cleanup s of
        None \<Rightarrow> s
      | Some i \<Rightarrow> s\<lparr>cancelled := (cancelled s)[i := True], cleanup := None\<rparr>)"

text \<open>
  The body of the fetch effect, with the values \<open>submittedQ\<close>, \<open>kind\<close>, \<open>page\<close> of the
  render it belongs to. The early return for a short query returns no cleanup
  function.
\<close>

definition fetch_effect :: "jsstring \<Rightarrow> SearchKind \<Rightarrow> int \<Rightarrow> SearchPage \<Rightarrow> SearchPage" where
  "fetch_effect q k p s =
     (let i = length (cancelled s);
          s = s\<lparr>cancelled := cancelled s @ [False]\<rparr>
      in if length (trim q) < 2
         then s\<lparr>results := [], total := 0, entityTotal := 0, categoryTotal := 0, err := None\<rparr>
         else s\<lparr>loading := True, err := None,
                requests := requests s @
                  [(i, \<lparr>call_q = trim q, call_kind = k, call_limit = LIMIT, call_offset = (p - 1) * LIMIT\<rparr>)],
                pending := pending s @ [i],
                cleanup := Some i\<rparr>)"

text \<open>
  One commit: React compares the dependencies of each effect with those of its last
  run and, in the order of the source, runs the effects whose dependencies changed
  (the cleanup of the previous run first). The effects read the values of the render,
  not the state they update.
\<close>

definition run_effects :: "SearchPage \<Rightarrow> SearchPage" where
  "run_effects s =
     (let q = submittedQ s; k = kind s; p = page s;
          s = (if kind_deps s = Some k then s else kind_effect (s\<lparr>kind_deps := Some k\<rparr>));
          s = (if fetch_deps s = Some (q, k, p) then s
               else fetch_effect q k p (run_cleanup (s\<lparr>fetch_deps := Some (q, k, p)\<rparr>)))
      in s)"

definition stale :: "SearchPage \<Rightarrow> bool" where
  "stale s = (kind_deps s \<noteq> Some (kind s) \<or> fetch_deps s \<noteq> Some (submittedQ s, kind s, page s))"

text \<open>
  A state update in an effect renders again: commits repeat until no effect is due.
  (In development builds \<open>React.StrictMode\<close> runs the effects a second time after
  mounting; the model is the production behaviour.)
\<close>

function flush :: "SearchPage \<Rightarrow> SearchPage" where
  "flush s = (if stale s then flush (run_effects s) else s)"
  by pat_completeness auto
termination
  by (relation "measure (\<lambda>s. (if kind_deps s \<noteq> Some (kind s) then 2 else 0)
        + (if fetch_deps s \<noteq> Some (submittedQ s, kind s, page s) then 1 else 0))")
    (auto simp add: stale_def run_effects_def kind_effect_def fetch_effect_def run_cleanup_def Let_def
      split: option.splits)

declare flush.simps [simp del]

subsection \<open>Events\<close>

definition totalPages :: "SearchPage \<Rightarrow> int" where
  \<comment> \<open>\<open>Math.max(1, Math.ceil(total / LIMIT))\<close>\<close>
  "totalPages s = max 1 (- ((- total s) div LIMIT))"

definition pagination_shown :: "SearchPage \<Rightarrow> bool" where
  "pagination_shown s = (length (trim (submittedQ s)) \<ge> 2 \<and> total s > LIMIT)"

text \<open>The promise chain \<open>.then(...).catch(...).finally(...)\<close> of run \<open>i\<close>.\<close>

definition null_data_error :: jsstring where
  "null_data_error = js ''TypeError: Cannot read properties of null''"

definition on_rejected :: "nat \<Rightarrow> jsstring \<Rightarrow> SearchPage \<Rightarrow> SearchPage" where
  "on_rejected i e s = (if cancelled s ! i then s else s\<lparr>err := Some e, results := []\<rparr>)"

definition on_resolved :: "nat \<Rightarrow> SearchData option \<Rightarrow> SearchPage \<Rightarrow> SearchPage" where
  \<comment> \<open>a body that is \<open>null\<close> makes \<open>data.results\<close> throw, which the \<open>catch\<close> handler gets\<close>
  "on_resolved i data s =
     (if cancelled s ! i then s
      else
        (case data of
           None \<Rightarrow> on_rejected i null_data_error s
         | Some d \<Rightarrow>
             s\<lparr>results := (case data_results d of None \<Rightarrow> [] | Some r \<Rightarrow> r),
               total := (case data_total d of None \<Rightarrow> 0 | Some n \<Rightarrow> n),
               entityTotal := (case data_entityTotal d of None \<Rightarrow> 0 | Some n \<Rightarrow> n),
               categoryTotal := (case data_categoryTotal d of None \<Rightarrow> 0 | Some n \<Rightarrow> n)\<rparr>))"

definition on_finally :: "nat \<Rightarrow> SearchPage \<Rightarrow> SearchPage" where
  "on_finally i s = (if \<not> cancelled s ! i then s\<lparr>loading := False\<rparr> else s)"

definition settle :: "nat \<Rightarrow> SearchData option outcome \<Rightarrow> SearchPage \<Rightarrow> SearchPage" where
  "settle i out s =
     (if i \<in> set (pending s) \<and> i < length (cancelled s) then
        on_finally i
          ((case out of Resolved data \<Rightarrow> on_resolved i data | Rejected e \<Rightarrow> on_rejected i e)
             (s\<lparr>pending := removeAll i (pending s)\<rparr>))
      else s)"

datatype event =
  TypeText jsstring
  | Submit
  | SetKind SearchKind
  | Prev
  | Next
  | Settle nat "SearchData option outcome"

fun handle :: "event \<Rightarrow> SearchPage \<Rightarrow> SearchPage" where
  "handle (TypeText v) s = s\<lparr>qInput := v\<rparr>"
| "handle Submit s = s\<lparr>page := 1, submittedQ := trim (qInput s)\<rparr>"
| "handle (SetKind k) s = s\<lparr>kind := k\<rparr>"
| "handle Prev s =
     (if pagination_shown s \<and> \<not> (page s \<le> 1 \<or> loading s) then s\<lparr>page := max 1 (page s - 1)\<rparr> else s)"
| "handle Next s =
     (if pagination_shown s \<and> \<not> (page s \<ge> totalPages s \<or> loading s)
      then s\<lparr>page := min (totalPages s) (page s + 1)\<rparr> else s)"
| "handle (Settle i out) s = settle i out s"

definition step :: "event \<Rightarrow> SearchPage \<Rightarrow> SearchPage" where
  "step e s = flush (handle e s)"

definition mount :: SearchPage where
  "mount = flush initial"

definition run :: "event list \<Rightarrow> SearchPage" where
  "run evs = foldl (\<lambda>s e. step e s) mount evs"

subsection \<open>What a commit and the flush leave alone\<close>

lemma run_effects_frame:
  "submittedQ (run_effects s) = submittedQ s" "kind (run_effects s) = kind s"
  "qInput (run_effects s) = qInput s" "kind_deps (run_effects s) = Some (kind s)"
  "fetch_deps (run_effects s) = Some (submittedQ s, kind s, page s)"
  "page (run_effects s) = (if kind_deps s = Some (kind s) then page s else 1)"
  by (simp_all add: run_effects_def kind_effect_def fetch_effect_def run_cleanup_def Let_def
      split: option.splits)

lemma flush_frame:
  "submittedQ (flush s) = submittedQ s \<and> kind (flush s) = kind s \<and> qInput (flush s) = qInput s
   \<and> page (flush s) = (if kind_deps s = Some (kind s) then page s else 1) \<and> \<not> stale (flush s)"
proof (induction s rule: flush.induct)
  case (1 s)
  show ?case
  proof (cases "stale s")
    case True
    then have "flush s = flush (run_effects s)"
      by (subst flush.simps) simp
    with 1 [OF True] show ?thesis
      by (simp add: run_effects_frame)
  next
    case False
    then have "flush s = s"
      by (subst flush.simps) simp
    with False show ?thesis
      by (simp add: stale_def)
  qed
qed

lemma flush_fresh: "\<not> stale s \<Longrightarrow> flush s = s"
  by (subst flush.simps) simp

lemma flush_once:
  assumes "kind_deps s = Some (kind s)" and "stale s"
  shows "flush s = run_effects s"
proof -
  have "\<not> stale (run_effects s)"
    using assms by (simp add: stale_def run_effects_frame)
  then have "flush (run_effects s) = run_effects s"
    by (rule flush_fresh)
  with assms(2) show ?thesis
    by (subst flush.simps) simp
qed

lemma run_snoc: "run (evs @ [e]) = step e (run evs)"
  by (simp add: run_def)

lemma run_fresh: "\<not> stale (run evs)"
proof (cases evs rule: rev_cases)
  case Nil
  then show ?thesis by (simp add: run_def mount_def flush_frame)
next
  case (snoc es e)
  then show ?thesis by (simp add: run_snoc step_def flush_frame)
qed

text \<open>
  C7. Whatever happened before, choosing another result kind leaves the submitted query
  as it was and puts the page number back to 1 (choosing the kind already selected
  changes nothing).
\<close>

theorem kind_change_resets_page:
  "submittedQ (step (SetKind k) (run evs)) = submittedQ (run evs)
   \<and> kind (step (SetKind k) (run evs)) = k
   \<and> page (step (SetKind k) (run evs)) = (if k = kind (run evs) then page (run evs) else 1)"
  using run_fresh [of evs] by (auto simp add: step_def flush_frame stale_def)


definition example_data :: SearchData where
  "example_data =
     \<lparr>data_results = Some [\<lparr>sr_uri = js ''http://dbpedia.org/resource/Cat'', sr_id = js ''aHR0'',
                              sr_label = js ''Cat'', sr_kind = kind_entity\<rparr>],
      data_total = Some 45, data_entityTotal = Some 30, data_categoryTotal = Some 15\<rparr>"

definition example_trace :: "event list" where
  "example_trace = [TypeText (js '' cat''), Submit, Settle 1 (Resolved (Some example_data)), Next]"

text \<open>The flush takes at most two commits.\<close>

lemma flush_unfold:
  "flush s =
     (if \<not> stale s then s
      else if \<not> stale (run_effects s) then run_effects s
      else run_effects (run_effects s))"
proof (cases "stale s")
  case False
  then show ?thesis by (simp add: flush_fresh)
next
  case True
  then have f: "flush s = flush (run_effects s)"
    by (subst flush.simps) simp
  show ?thesis
  proof (cases "stale (run_effects s)")
    case False
    with True f show ?thesis by (simp add: flush_fresh)
  next
    case s2: True
    have "kind_deps (run_effects s) = Some (kind (run_effects s))"
      by (simp add: run_effects_frame)
    from flush_once [OF this s2] True s2 f show ?thesis by simp
  qed
qed

lemmas eval_defs = step_def run_def mount_def initial_def stale_def run_effects_def kind_effect_def
  fetch_effect_def run_cleanup_def settle_def on_resolved_def on_rejected_def on_finally_def
  pagination_shown_def totalPages_def LIMIT_def Let_def

lemma mount_state:
  "mount = \<lparr>qInput = [], submittedQ = [], kind = kind_all, loading = False, err = None, results = [],
      page = 1, total = 0, entityTotal = 0, categoryTotal = 0,
      kind_deps = Some kind_all, fetch_deps = Some ([], kind_all, 1), cancelled = [False],
      cleanup = None, requests = [], pending = []\<rparr>"
  by (simp add: eval_defs flush_unfold trim_def)

lemma trim_example: "trim (js '' cat'') = js ''cat''" "trim (js ''cat'') = js ''cat''"
  by (simp_all add: trim_def js_def js_whitespace_def)

lemma length_example: "length (js ''cat'') = 3" "js ''cat'' \<noteq> []" "[] \<noteq> js ''cat''"
  by (simp_all add: js_def)

lemma state1:
  "run [TypeText (js '' cat'')] = mount\<lparr>qInput := js '' cat''\<rparr>"
  by (simp add: run_def step_def mount_state stale_def flush_unfold)

lemma state2:
  "run [TypeText (js '' cat''), Submit] =
     \<lparr>qInput = js '' cat'', submittedQ = js ''cat'', kind = kind_all, loading = True, err = None,
      results = [], page = 1, total = 0, entityTotal = 0, categoryTotal = 0,
      kind_deps = Some kind_all, fetch_deps = Some (js ''cat'', kind_all, 1),
      cancelled = [False, False], cleanup = Some 1,
      requests = [(1, \<lparr>call_q = js ''cat'', call_kind = kind_all, call_limit = 20, call_offset = 0\<rparr>)],
      pending = [1]\<rparr>"
proof -
  have "run [TypeText (js '' cat''), Submit] = step Submit (run [TypeText (js '' cat'')])"
    using run_snoc [of "[TypeText (js '' cat'')]" Submit] by simp
  also have "\<dots> = flush (mount\<lparr>qInput := js '' cat'', page := 1, submittedQ := js ''cat''\<rparr>)"
    by (simp add: state1 step_def trim_example)
  finally show ?thesis
    by (simp only:) (simp add: mount_state flush_unfold stale_def run_effects_def fetch_effect_def run_cleanup_def
        Let_def trim_example length_example LIMIT_def)
qed


lemma state3:
  "run [TypeText (js '' cat''), Submit, Settle 1 (Resolved (Some example_data))] =
     \<lparr>qInput = js '' cat'', submittedQ = js ''cat'', kind = kind_all, loading = False, err = None,
      results = the (data_results example_data), page = 1, total = 45, entityTotal = 30,
      categoryTotal = 15,
      kind_deps = Some kind_all, fetch_deps = Some (js ''cat'', kind_all, 1),
      cancelled = [False, False], cleanup = Some 1,
      requests = [(1, \<lparr>call_q = js ''cat'', call_kind = kind_all, call_limit = 20, call_offset = 0\<rparr>)],
      pending = []\<rparr>"
proof -
  have "run [TypeText (js '' cat''), Submit, Settle 1 (Resolved (Some example_data))]
      = step (Settle 1 (Resolved (Some example_data))) (run [TypeText (js '' cat''), Submit])"
    using run_snoc [of "[TypeText (js '' cat''), Submit]"] by simp
  then show ?thesis
    by (simp only: state2)
      (simp add: step_def settle_def on_resolved_def on_finally_def flush_unfold stale_def
        example_data_def)
qed

lemma state4:
  "run example_trace =
     \<lparr>qInput = js '' cat'', submittedQ = js ''cat'', kind = kind_all, loading = True, err = None,
      results = the (data_results example_data), page = 2, total = 45, entityTotal = 30,
      categoryTotal = 15,
      kind_deps = Some kind_all, fetch_deps = Some (js ''cat'', kind_all, 2),
      cancelled = [False, True, False], cleanup = Some 2,
      requests = [(1, \<lparr>call_q = js ''cat'', call_kind = kind_all, call_limit = 20, call_offset = 0\<rparr>),
                  (2, \<lparr>call_q = js ''cat'', call_kind = kind_all, call_limit = 20, call_offset = 20\<rparr>)],
      pending = [2]\<rparr>"
proof -
  have "run example_trace
      = step Next (run [TypeText (js '' cat''), Submit, Settle 1 (Resolved (Some example_data))])"
    using run_snoc [of "[TypeText (js '' cat''), Submit, Settle 1 (Resolved (Some example_data))]"]
    by (simp add: example_trace_def)
  then show ?thesis
    by (simp only: state3)
      (simp add: step_def pagination_shown_def totalPages_def LIMIT_def flush_unfold stale_def
        run_effects_def fetch_effect_def run_cleanup_def Let_def trim_example length_example)
qed

theorem kind_change_resets_page_witness:
  "page (run example_trace) = 2
   \<and> submittedQ (run example_trace) = js ''cat''
   \<and> page (step (SetKind kind_entity) (run example_trace)) = 1
   \<and> submittedQ (step (SetKind kind_entity) (run example_trace)) = js ''cat''"
  using kind_change_resets_page [of kind_entity example_trace]
  by (simp add: state4)


subsection \<open>Invariant: every run but the last issued one is cancelled\<close>

definition cleared :: "SearchPage \<Rightarrow> bool" where
  "cleared s = (results s = [] \<and> total s = 0 \<and> entityTotal s = 0 \<and> categoryTotal s = 0)"

definition inv_pending :: "SearchPage \<Rightarrow> bool" where
  \<comment> \<open>a run whose promise is pending is cancelled, unless React holds its cleanup\<close>
  "inv_pending s =
     (\<forall>i \<in> set (pending s). i < length (cancelled s) \<and> (\<not> cancelled s ! i \<longrightarrow> cleanup s = Some i))"

definition inv_cleanup :: "SearchPage \<Rightarrow> bool" where
  \<comment> \<open>the run whose cleanup React holds issued the last call, for a query of 2 units or more\<close>
  "inv_cleanup s =
     (\<forall>i. cleanup s = Some i \<longrightarrow>
        i < length (cancelled s) \<and> requests s \<noteq> [] \<and> i = fst (last (requests s))
        \<and> (\<exists>q k p. fetch_deps s = Some (q, k, p) \<and> 2 \<le> length (trim q)))"

definition inv_short :: "SearchPage \<Rightarrow> bool" where
  \<comment> \<open>after a run of the fetch effect for a short query the results are cleared\<close>
  "inv_short s = (\<forall>q k p. fetch_deps s = Some (q, k, p) \<longrightarrow> length (trim q) < 2 \<longrightarrow> cleared s)"

definition page_inv :: "SearchPage \<Rightarrow> bool" where
  "page_inv s = (inv_pending s \<and> inv_cleanup s \<and> inv_short s)"

lemma page_inv_initial: "page_inv initial"
  by (simp add: page_inv_def inv_pending_def inv_cleanup_def inv_short_def initial_def)

lemma page_inv_kind_effect: "page_inv s \<Longrightarrow> page_inv (kind_effect (s\<lparr>kind_deps := d\<rparr>))"
  by (simp add: page_inv_def inv_pending_def inv_cleanup_def inv_short_def kind_effect_def cleared_def)

lemma run_cleanup_pending:
  assumes "inv_pending s" and "i \<in> set (pending s)"
  shows "i < length (cancelled (run_cleanup s)) \<and> cancelled (run_cleanup s) ! i"
proof (cases "cleanup s")
  case None
  with assms show ?thesis
    by (auto simp add: inv_pending_def run_cleanup_def)
next
  case (Some j)
  with assms show ?thesis
    by (cases "i = j") (auto simp add: inv_pending_def run_cleanup_def)
qed

lemma run_cleanup_frame:
  "cleanup (run_cleanup s) = None" "pending (run_cleanup s) = pending s"
  "requests (run_cleanup s) = requests s" "fetch_deps (run_cleanup s) = fetch_deps s"
  "results (run_cleanup s) = results s" "total (run_cleanup s) = total s"
  "entityTotal (run_cleanup s) = entityTotal s" "categoryTotal (run_cleanup s) = categoryTotal s"
  "length (cancelled (run_cleanup s)) = length (cancelled s)"
  by (simp_all add: run_cleanup_def split: option.splits)

lemma page_inv_fetch_effect:
  assumes "page_inv s"
  shows "page_inv (fetch_effect q k p (run_cleanup (s\<lparr>fetch_deps := Some (q, k, p)\<rparr>)))"
proof -
  let ?c = "run_cleanup (s\<lparr>fetch_deps := Some (q, k, p)\<rparr>)"
  from assms have "inv_pending (s\<lparr>fetch_deps := Some (q, k, p)\<rparr>)"
    by (simp add: page_inv_def inv_pending_def)
  then have old: "\<forall>i \<in> set (pending ?c). i < length (cancelled ?c) \<and> cancelled ?c ! i"
    using run_cleanup_pending [of "s\<lparr>fetch_deps := Some (q, k, p)\<rparr>"]
    by (simp add: run_cleanup_frame)
  have fd: "fetch_deps ?c = Some (q, k, p)" and cl: "cleanup ?c = None"
    by (simp_all add: run_cleanup_frame)
  show ?thesis
  proof (cases "length (trim q) < 2")
    case True
    then have "inv_pending (fetch_effect q k p ?c)"
      using old by (auto simp add: inv_pending_def fetch_effect_def Let_def nth_append)
    moreover from True have "inv_cleanup (fetch_effect q k p ?c)"
      using cl by (simp add: inv_cleanup_def fetch_effect_def Let_def)
    moreover from True have "inv_short (fetch_effect q k p ?c)"
      by (simp add: inv_short_def fetch_effect_def Let_def cleared_def)
    ultimately show ?thesis by (simp add: page_inv_def)
  next
    case False
    then have "inv_pending (fetch_effect q k p ?c)"
      using old by (auto simp add: inv_pending_def fetch_effect_def Let_def nth_append)
    moreover from False have "inv_cleanup (fetch_effect q k p ?c)"
      using fd by (simp add: inv_cleanup_def fetch_effect_def Let_def)
    moreover from False have "inv_short (fetch_effect q k p ?c)"
      using fd by (simp add: inv_short_def fetch_effect_def Let_def)
    ultimately show ?thesis by (simp add: page_inv_def)
  qed
qed

lemma page_inv_run_effects: "page_inv s \<Longrightarrow> page_inv (run_effects s)"
proof -
  assume s: "page_inv s"
  let ?a = "if kind_deps s = Some (kind s) then s else kind_effect (s\<lparr>kind_deps := Some (kind s)\<rparr>)"
  have a: "page_inv ?a"
    using s by (simp add: page_inv_kind_effect)
  have "run_effects s =
      (if fetch_deps ?a = Some (submittedQ s, kind s, page s) then ?a
       else fetch_effect (submittedQ s) (kind s) (page s)
              (run_cleanup (?a\<lparr>fetch_deps := Some (submittedQ s, kind s, page s)\<rparr>)))"
    by (simp add: run_effects_def Let_def)
  then show ?thesis
    using a page_inv_fetch_effect [OF a] by simp
qed

lemma page_inv_flush: "page_inv s \<Longrightarrow> page_inv (flush s)"
proof (induction s rule: flush.induct)
  case (1 s)
  show ?case
  proof (cases "stale s")
    case True
    then have "flush s = flush (run_effects s)"
      by (subst flush.simps) simp
    with 1 True show ?thesis
      by (simp add: page_inv_run_effects)
  next
    case False
    then have "flush s = s"
      by (subst flush.simps) simp
    with 1 show ?thesis by simp
  qed
qed

lemma page_inv_settle: "page_inv s \<Longrightarrow> page_inv (settle i out s)"
proof -
  assume s: "page_inv s"
  show ?thesis
  proof (cases "i \<in> set (pending s) \<and> i < length (cancelled s)")
    case False
    then have "settle i out s = s" by (auto simp add: settle_def)
    with s show ?thesis by simp
  next
    case True
    show ?thesis
    proof (cases "cancelled s ! i")
      case c: True
      with True have "settle i out s = s\<lparr>pending := removeAll i (pending s)\<rparr>"
        by (simp add: settle_def on_finally_def on_resolved_def on_rejected_def split: outcome.splits)
      with s show ?thesis
        by (simp add: page_inv_def inv_pending_def inv_cleanup_def inv_short_def cleared_def)
    next
      case c: False
      with True s have cl: "cleanup s = Some i"
        by (simp add: page_inv_def inv_pending_def)
      with s obtain q k p where fd: "fetch_deps s = Some (q, k, p)" "2 \<le> length (trim q)"
        by (auto simp add: page_inv_def inv_cleanup_def)
      from s have "inv_pending (settle i out s)"
        using True c
        by (auto simp add: page_inv_def inv_pending_def settle_def on_finally_def on_resolved_def
            on_rejected_def split: outcome.splits option.splits)
      moreover from s have "inv_cleanup (settle i out s)"
        using True c
        by (auto simp add: page_inv_def inv_cleanup_def settle_def on_finally_def on_resolved_def
            on_rejected_def split: outcome.splits option.splits)
      moreover have "inv_short (settle i out s)"
        using True c fd
        by (auto simp add: inv_short_def settle_def on_finally_def on_resolved_def
            on_rejected_def split: outcome.splits option.splits)
      ultimately show ?thesis by (simp add: page_inv_def)
    qed
  qed
qed

lemma page_inv_handle: "page_inv s \<Longrightarrow> page_inv (handle e s)"
proof (cases e)
  case (Settle i out)
  assume "page_inv s"
  with Settle show ?thesis by (simp add: page_inv_settle)
qed (simp_all add: page_inv_def inv_pending_def inv_cleanup_def inv_short_def cleared_def)


lemma page_inv_run: "page_inv (run evs)"
proof (induction evs rule: rev_induct)
  case Nil
  then show ?case by (simp add: run_def mount_def page_inv_flush page_inv_initial)
next
  case (snoc e es)
  then show ?case by (simp add: run_snoc step_def page_inv_flush page_inv_handle)
qed

lemma trim_idem: "trim (trim s) = trim s"
proof -
  let ?t = "dropWhile js_whitespace s"
  let ?u = "trim s"
  have u: "rev ?u = dropWhile js_whitespace (rev ?t)"
    by (simp add: trim_def)
  have "rev (rev ?t) = rev (takeWhile js_whitespace (rev ?t) @ dropWhile js_whitespace (rev ?t))"
    by (simp only: takeWhile_dropWhile_id)
  then have t: "?t = ?u @ rev (takeWhile js_whitespace (rev ?t))"
    by (simp only: rev_append rev_rev_ident trim_def)
  have "dropWhile js_whitespace ?u = ?u"
  proof (cases "?u = []")
    case True
    then show ?thesis by simp
  next
    case False
    with t have "hd ?u = hd ?t" and "?t \<noteq> []"
      by (metis hd_append2, metis append_is_Nil_conv)
    then have "\<not> js_whitespace (hd ?u)"
      using hd_dropWhile [of js_whitespace s] by simp
    then show ?thesis
      by (simp add: dropWhile_eq_self_iff)
  qed
  then have "trim ?u = rev (dropWhile js_whitespace (rev ?u))"
    by (simp add: trim_def [of "trim s"])
  also have "\<dots> = rev (dropWhile js_whitespace (dropWhile js_whitespace (rev ?t)))"
    by (simp only: u)
  also have "\<dots> = ?u"
    by (simp add: trim_def)
  finally show ?thesis .
qed

text \<open>
  C5. Whatever happened before, submitting a text whose trimmed length is under 2 UTF-16
  code units (the \<open>length\<close> of the string, not its number of characters) leaves the page
  with empty results and zero totals, and issues no call of \<open>search\<close>.
\<close>

theorem short_query_no_fetch:
  assumes "length (trim (qInput (run evs))) < 2"
  shows "results (step Submit (run evs)) = [] \<and> total (step Submit (run evs)) = 0
         \<and> entityTotal (step Submit (run evs)) = 0 \<and> categoryTotal (step Submit (run evs)) = 0
         \<and> requests (step Submit (run evs)) = requests (run evs)
         \<and> pending (step Submit (run evs)) = pending (run evs)"
proof -
  let ?s = "run evs"
  let ?t = "trim (qInput ?s)"
  let ?s1 = "?s\<lparr>page := 1, submittedQ := ?t\<rparr>"
  have fresh: "\<not> stale ?s" by (rule run_fresh)
  have i: "page_inv ?s" by (rule page_inv_run)
  from assms have short: "length (trim ?t) < 2"
    by (simp add: trim_idem)
  have st: "step Submit ?s = flush ?s1"
    by (simp add: step_def)
  have kd: "kind_deps ?s1 = Some (kind ?s1)"
    using fresh by (simp add: stale_def)
  show ?thesis
  proof (cases "stale ?s1")
    case True
    then have fd: "fetch_deps ?s \<noteq> Some (?t, kind ?s, 1)"
      using kd by (simp add: stale_def)
    have "flush ?s1 = run_effects ?s1"
      using kd True by (rule flush_once)
    also have "\<dots> = fetch_effect ?t (kind ?s) 1 (run_cleanup (?s1\<lparr>fetch_deps := Some (?t, kind ?s, 1)\<rparr>))"
      using kd fd by (simp add: run_effects_def Let_def)
    finally show ?thesis
      using short
      by (simp add: st fetch_effect_def Let_def run_cleanup_frame)
  next
    case False
    then have "flush ?s1 = ?s1" by (rule flush_fresh)
    moreover from False fresh have "fetch_deps ?s = Some (?t, kind ?s, 1)"
      by (simp add: stale_def)
    with i short have "cleared ?s"
      by (simp add: page_inv_def inv_short_def)
    ultimately show ?thesis
      by (simp add: st cleared_def)
  qed
qed

lemma search_stale_discarded:
  assumes "i \<in> set (pending (run evs))" and "i \<noteq> fst (last (requests (run evs)))"
  shows "cancelled (run evs) ! i
         \<and> step (Settle i out) (run evs) = (run evs)\<lparr>pending := removeAll i (pending (run evs))\<rparr>"
proof -
  let ?s = "run evs"
  have i: "page_inv ?s" by (rule page_inv_run)
  from i assms(1) have lt: "i < length (cancelled ?s)"
    by (simp add: page_inv_def inv_pending_def)
  have c: "cancelled ?s ! i"
  proof (rule ccontr)
    assume "\<not> cancelled ?s ! i"
    with i assms(1) have "cleanup ?s = Some i"
      by (simp add: page_inv_def inv_pending_def)
    with i have "i = fst (last (requests ?s))"
      by (simp add: page_inv_def inv_cleanup_def)
    with assms(2) show False by simp
  qed
  have "settle i out ?s = ?s\<lparr>pending := removeAll i (pending ?s)\<rparr>"
    using assms(1) lt c
    by (simp add: settle_def on_finally_def on_resolved_def on_rejected_def split: outcome.splits)
  moreover have "\<not> stale (?s\<lparr>pending := removeAll i (pending ?s)\<rparr>)"
    using run_fresh [of evs] by (simp add: stale_def)
  ultimately show ?thesis
    using c by (simp add: step_def flush_fresh)
qed

lemma search_not_pending:
  "i \<notin> set (pending (run evs)) \<Longrightarrow> step (Settle i out) (run evs) = run evs"
  using run_fresh [of evs] by (simp add: step_def settle_def flush_fresh)


definition short_trace :: "event list" where
  "short_trace =
     [TypeText (js '' cat''), Submit, Settle 1 (Resolved (Some example_data)), TypeText (js ''a '')]"

lemma short_trace_state:
  "run short_trace =
     (run [TypeText (js '' cat''), Submit, Settle 1 (Resolved (Some example_data))])\<lparr>qInput := js ''a ''\<rparr>"
proof -
  have "run short_trace
      = step (TypeText (js ''a '')) (run [TypeText (js '' cat''), Submit, Settle 1 (Resolved (Some example_data))])"
    using run_snoc [of "[TypeText (js '' cat''), Submit, Settle 1 (Resolved (Some example_data))]"]
    by (simp add: short_trace_def)
  then show ?thesis
    by (simp only: state3) (simp add: step_def flush_unfold stale_def)
qed

theorem short_query_no_fetch_witness:
  "length (trim (qInput (run short_trace))) < 2
   \<and> results (run short_trace) \<noteq> [] \<and> total (run short_trace) = 45
   \<and> results (step Submit (run short_trace)) = [] \<and> total (step Submit (run short_trace)) = 0
   \<and> entityTotal (step Submit (run short_trace)) = 0
   \<and> categoryTotal (step Submit (run short_trace)) = 0
   \<and> requests (step Submit (run short_trace)) = requests (run short_trace)"
proof -
  have q: "qInput (run short_trace) = js ''a ''"
    by (simp add: short_trace_state)
  have "trim (js ''a '') = js ''a''"
    by (simp add: trim_def js_def js_whitespace_def)
  then have short: "length (trim (qInput (run short_trace))) < 2"
    by (simp add: q js_def)
  have "results (run short_trace) \<noteq> [] \<and> total (run short_trace) = 45"
    by (simp only: short_trace_state state3) (simp add: example_data_def)
  with short short_query_no_fetch [OF short] show ?thesis
    by simp
qed

text \<open>
  The threshold is not a number of characters: the single character U+1F600 is the
  surrogate pair \<open>D83D DE00\<close>, of length 2, and submitting it calls \<open>search\<close>.
\<close>

definition emoji :: jsstring where
  "emoji = [0xD83D, 0xDE00]"

theorem one_character_query_fetches:
  "characters (trim (qInput (run [TypeText emoji]))) < 2
   \<and> requests (run [TypeText emoji]) = []
   \<and> requests (step Submit (run [TypeText emoji]))
       = [(1, \<lparr>call_q = emoji, call_kind = kind_all, call_limit = 20, call_offset = 0\<rparr>)]
   \<and> pending (step Submit (run [TypeText emoji])) = [1]
   \<and> loading (step Submit (run [TypeText emoji]))"
proof -
  have t: "trim emoji = emoji"
    by (simp add: trim_def emoji_def js_whitespace_def)
  have l: "length emoji = 2" "emoji \<noteq> []" "[] \<noteq> emoji"
    by (simp_all add: emoji_def)
  have c: "characters emoji = 1"
    by (simp add: emoji_def is_lead_def is_trail_def)
  have s1: "run [TypeText emoji] = mount\<lparr>qInput := emoji\<rparr>"
    by (simp add: run_def step_def mount_state stale_def flush_unfold)
  have "step Submit (run [TypeText emoji]) = flush (mount\<lparr>qInput := emoji, page := 1, submittedQ := emoji\<rparr>)"
    by (simp add: s1 step_def t)
  then have s2: "step Submit (run [TypeText emoji]) =
     \<lparr>qInput = emoji, submittedQ = emoji, kind = kind_all, loading = True, err = None,
      results = [], page = 1, total = 0, entityTotal = 0, categoryTotal = 0,
      kind_deps = Some kind_all, fetch_deps = Some (emoji, kind_all, 1),
      cancelled = [False, False], cleanup = Some 1,
      requests = [(1, \<lparr>call_q = emoji, call_kind = kind_all, call_limit = 20, call_offset = 0\<rparr>)],
      pending = [1]\<rparr>"
    by (simp only:) (simp add: mount_state flush_unfold stale_def run_effects_def fetch_effect_def run_cleanup_def
        Let_def t l LIMIT_def)
  show ?thesis
    by (simp add: s2) (simp add: s1 mount_state t c)
qed

section \<open>Category page (pages/CategoryPage.tsx)\<close>

text \<open>
  The page has two fetch sites, each an effect with its own \<open>cancelled\<close> variable: the
  category fetch with dependencies \<open>[id]\<close> and the entity-list fetch with dependencies
  \<open>[id, selectedTypes]\<close>. A third effect registers the listener of the window event
  \<open>wadev:typeFilterChanged\<close>. The effect that sets the document title and the JSON-LD
  hook write outside the component state and are left out.

  React compares dependencies with \<open>Object.is\<close>: strings by content, arrays by
  identity. The state \<open>selectedTypes\<close> therefore holds a reference into a heap of
  arrays; the listener stores the array of the event, and every event of the type-facets
  extension carries an array built for it, so the handler allocates a new one.

  The entity-list effect builds the URL of the filtered request itself, with
  \<open>encodeURIComponent\<close>, before it calls \<open>fetch\<close>: an unpaired surrogate in the id or in
  the selected types makes the effect throw URIError. \<open>main.tsx\<close> renders the routes
  in a \<open>BrowserRouter\<close> without an error boundary, so React unmounts the application: the
  cleanup functions of the effects run and the component is gone (\<open>unmounted\<close>). The
  unfiltered request goes through the asynchronous \<open>getCategoryEntities\<close>, where an
  exception is a rejected promise.
\<close>

record EntityRef =
  ent_uri :: jsstring
  ent_id :: jsstring
  ent_label :: jsstring

record EntitiesData =
  ents_results :: "EntityRef list option"

text \<open>
  A call at the entity-list site: \<open>getCategoryEntities(id, limit, offset)\<close>, or \<open>fetch\<close> of
  the URL that follows \<open>API_BASE\<close>.
\<close>

datatype entities_call =
  GetCategoryEntities jsstring int int
  | FetchEntitiesByType jsstring

record CategoryPage =
  route_id :: "jsstring option"
  cat :: "CategoryDetails option"
  entities :: "EntityRef list"
  cat_loading :: bool
  entitiesLoading :: bool
  cat_err :: "jsstring option"
  selectedTypes :: nat
  heap :: "nat \<Rightarrow> jsstring list"
  next_ref :: nat
  listening :: bool
  unmounted :: bool
  cat_deps :: "jsstring option option"
  ent_deps :: "(jsstring option \<times> nat) option"
  cat_cancelled :: "bool list"
  cat_cleanup :: "nat option"
  cat_requests :: "(nat \<times> jsstring) list"
  cat_pending :: "nat list"
  ent_cancelled :: "bool list"
  ent_cleanup :: "nat option"
  ent_requests :: "(nat \<times> entities_call) list"
  ent_pending :: "nat list"

definition cat_initial :: "jsstring option \<Rightarrow> CategoryPage" where
  "cat_initial ident =
     \<lparr>route_id = ident, cat = None, entities = [], cat_loading = True, entitiesLoading = False,
      cat_err = None, selectedTypes = 0, heap = (\<lambda>_. []), next_ref = 1, listening = False,
      unmounted = False,
      cat_deps = None, ent_deps = None,
      cat_cancelled = [], cat_cleanup = None, cat_requests = [], cat_pending = [],
      ent_cancelled = [], ent_cleanup = None, ent_requests = [], ent_pending = []\<rparr>"

definition falsy :: "jsstring option \<Rightarrow> bool" where
  \<comment> \<open>\<open>!id\<close>: the parameter is undefined or the empty string\<close>
  "falsy ident = (case ident of None \<Rightarrow> True | Some i \<Rightarrow> i = [])"

subsection \<open>The category fetch effect\<close>

definition cat_run_cleanup :: "CategoryPage \<Rightarrow> CategoryPage" where
  "cat_run_cleanup s =
     (case cat_cleanup s of
        None \<Rightarrow> s
      | Some i \<Rightarrow> s\<lparr>cat_cancelled := (cat_cancelled s)[i := True], cat_cleanup := None\<rparr>)"

definition cat_effect :: "jsstring option \<Rightarrow> CategoryPage \<Rightarrow> CategoryPage" where
  "cat_effect ident s =
     (let i = length (cat_cancelled s);
          s = s\<lparr>cat_cancelled := cat_cancelled s @ [False]\<rparr>
      in case ident of
           None \<Rightarrow> s
         | Some c \<Rightarrow>
             if c = [] then s
             else s\<lparr>cat_err := None, cat_loading := True, cat := None,
                    cat_requests := cat_requests s @ [(i, c)],
                    cat_pending := cat_pending s @ [i],
                    cat_cleanup := Some i\<rparr>)"

subsection \<open>The entity-list fetch effect\<close>

definition ent_run_cleanup :: "CategoryPage \<Rightarrow> CategoryPage" where
  "ent_run_cleanup s =
     (case ent_cleanup s of
        None \<Rightarrow> s
      | Some i \<Rightarrow> s\<lparr>ent_cancelled := (ent_cancelled s)[i := True], ent_cleanup := None\<rparr>)"

definition js_join :: "jsstring list \<Rightarrow> jsstring" where
  \<comment> \<open>\<open>xs.join(",")\<close>\<close>
  "js_join xs = (case xs of [] \<Rightarrow> [] | x # r \<Rightarrow> x @ concat (map (\<lambda>y. 0x2C # y) r))"

text \<open>
  The template literal of the filtered request, after \<open>API_BASE\<close>; \<open>None\<close> when
  \<open>encodeURIComponent\<close> throws.
\<close>

definition entitiesByType_url :: "jsstring \<Rightarrow> jsstring list \<Rightarrow> jsstring option" where
  "entitiesByType_url c types =
     (case encodeURIComponent c of
        None \<Rightarrow> None
      | Some i \<Rightarrow>
          (case encodeURIComponent (js_join types) of
             None \<Rightarrow> None
           | Some t \<Rightarrow>
               Some (js ''/api/category/'' @ i @ js ''/entitiesByType?types='' @ t
                     @ js ''&limit=25&offset=0'')))"

text \<open>
  React unmounts the tree after an uncaught exception of an effect: every effect that has
  a cleanup function runs it, which cancels the running fetches and removes the listener.
\<close>

definition unmount :: "CategoryPage \<Rightarrow> CategoryPage" where
  "unmount s = (cat_run_cleanup (ent_run_cleanup s))\<lparr>listening := False, unmounted := True\<rparr>"

text \<open>
  The effect sets its \<open>cancelled\<close> variable, returns when the id is missing, queues the two
  state updates and builds the promise. When the URL cannot be built the exception leaves
  the effect before \<open>fetch\<close> is called: there is no request, no promise and no cleanup
  function of this run.
\<close>

definition ent_effect :: "jsstring option \<Rightarrow> jsstring list \<Rightarrow> CategoryPage \<Rightarrow> CategoryPage" where
  "ent_effect ident types s =
     (let i = length (ent_cancelled s);
          s = s\<lparr>ent_cancelled := ent_cancelled s @ [False]\<rparr>
      in case ident of
           None \<Rightarrow> s
         | Some c \<Rightarrow>
             if c = [] then s
             else
               (let s = s\<lparr>cat_err := None, entitiesLoading := True\<rparr>
                in if length types \<noteq> 0 then
                     (case entitiesByType_url c types of
                        None \<Rightarrow> unmount s
                      | Some url \<Rightarrow>
                          s\<lparr>ent_requests := ent_requests s @ [(i, FetchEntitiesByType url)],
                            ent_pending := ent_pending s @ [i],
                            ent_cleanup := Some i\<rparr>)
                   else
                     s\<lparr>ent_requests := ent_requests s @ [(i, GetCategoryEntities c 25 0)],
                       ent_pending := ent_pending s @ [i],
                       ent_cleanup := Some i\<rparr>))"

subsection \<open>Commits\<close>

text \<open>
  The listener effect has the dependency list \<open>[]\<close>: it runs in the first commit only,
  before the two fetch effects. An unmounted component has no effect to run.
\<close>

definition cat_run_effects :: "CategoryPage \<Rightarrow> CategoryPage" where
  "cat_run_effects s =
     (let ident = route_id s; r = selectedTypes s; types = heap s r;
          s = (if listening s then s else s\<lparr>listening := True\<rparr>);
          s = (if cat_deps s = Some ident then s
               else cat_effect ident (cat_run_cleanup (s\<lparr>cat_deps := Some ident\<rparr>)));
          s = (if ent_deps s = Some (ident, r) then s
               else ent_effect ident types (ent_run_cleanup (s\<lparr>ent_deps := Some (ident, r)\<rparr>)))
      in s)"

definition cat_stale :: "CategoryPage \<Rightarrow> bool" where
  "cat_stale s =
     (\<not> unmounted s
      \<and> (cat_deps s \<noteq> Some (route_id s) \<or> ent_deps s \<noteq> Some (route_id s, selectedTypes s)))"

function cat_flush :: "CategoryPage \<Rightarrow> CategoryPage" where
  "cat_flush s = (if cat_stale s then cat_flush (cat_run_effects s) else s)"
  by pat_completeness auto
termination
  by (relation "measure (\<lambda>s. if cat_stale s then 1 else 0)")
    (auto simp add: cat_stale_def cat_run_effects_def cat_effect_def ent_effect_def unmount_def
      cat_run_cleanup_def ent_run_cleanup_def Let_def split: option.splits)

declare cat_flush.simps [simp del]

subsection \<open>Events\<close>

definition cat_settle :: "nat \<Rightarrow> CategoryDetails option outcome \<Rightarrow> CategoryPage \<Rightarrow> CategoryPage" where
  \<comment> \<open>\<open>.then(c => { if (cancelled) return; setCat(c) }).catch(...).finally(...)\<close>\<close>
  "cat_settle i out s =
     (if i \<in> set (cat_pending s) \<and> i < length (cat_cancelled s) then
        (let s = s\<lparr>cat_pending := removeAll i (cat_pending s)\<rparr>
         in if cat_cancelled s ! i then s
            else
              (case out of
                 Resolved c \<Rightarrow> s\<lparr>cat := c, cat_loading := False\<rparr>
               | Rejected e \<Rightarrow> s\<lparr>cat_err := Some e, cat_loading := False\<rparr>))
      else s)"

definition ent_settle :: "nat \<Rightarrow> EntitiesData option outcome \<Rightarrow> CategoryPage \<Rightarrow> CategoryPage" where
  \<comment> \<open>a body that is \<open>null\<close> makes \<open>ents.results\<close> throw, which the \<open>catch\<close> handler gets\<close>
  "ent_settle i out s =
     (if i \<in> set (ent_pending s) \<and> i < length (ent_cancelled s) then
        (let s = s\<lparr>ent_pending := removeAll i (ent_pending s)\<rparr>
         in if ent_cancelled s ! i then s
            else
              (case out of
                 Resolved None \<Rightarrow> s\<lparr>cat_err := Some null_data_error, entitiesLoading := False\<rparr>
               | Resolved (Some d) \<Rightarrow>
                   s\<lparr>entities := (case ents_results d of None \<Rightarrow> [] | Some r \<Rightarrow> r),
                     entitiesLoading := False\<rparr>
               | Rejected e \<Rightarrow> s\<lparr>cat_err := Some e, entitiesLoading := False\<rparr>))
      else s)"

datatype cat_event =
  Navigate "jsstring option"
  | TypeFilterChanged "jsstring list option"
  | SettleCategory nat "CategoryDetails option outcome"
  | SettleEntities nat "EntitiesData option outcome"

fun cat_handle :: "cat_event \<Rightarrow> CategoryPage \<Rightarrow> CategoryPage" where
  "cat_handle (Navigate ident) s = (if unmounted s then s else s\<lparr>route_id := ident\<rparr>)"
| "cat_handle (TypeFilterChanged types) s =
     (if listening s
      then s\<lparr>heap := (heap s)(next_ref s := (case types of None \<Rightarrow> [] | Some t \<Rightarrow> t)),
             selectedTypes := next_ref s, next_ref := Suc (next_ref s)\<rparr>
      else s)"
| "cat_handle (SettleCategory i out) s = cat_settle i out s"
| "cat_handle (SettleEntities i out) s = ent_settle i out s"

definition cat_step :: "cat_event \<Rightarrow> CategoryPage \<Rightarrow> CategoryPage" where
  "cat_step e s = cat_flush (cat_handle e s)"

definition cat_mount :: "jsstring option \<Rightarrow> CategoryPage" where
  "cat_mount ident = cat_flush (cat_initial ident)"

definition cat_run :: "jsstring option \<Rightarrow> cat_event list \<Rightarrow> CategoryPage" where
  "cat_run ident evs = foldl (\<lambda>s e. cat_step e s) (cat_mount ident) evs"

subsection \<open>What a commit and the flush leave alone\<close>

lemma cat_run_cleanup_frame:
  "cat_cleanup (cat_run_cleanup s) = None" "cat_pending (cat_run_cleanup s) = cat_pending s"
  "cat_requests (cat_run_cleanup s) = cat_requests s"
  "length (cat_cancelled (cat_run_cleanup s)) = length (cat_cancelled s)"
  "cat (cat_run_cleanup s) = cat s" "cat_loading (cat_run_cleanup s) = cat_loading s"
  "route_id (cat_run_cleanup s) = route_id s" "selectedTypes (cat_run_cleanup s) = selectedTypes s"
  "heap (cat_run_cleanup s) = heap s" "ent_requests (cat_run_cleanup s) = ent_requests s"
  "ent_deps (cat_run_cleanup s) = ent_deps s" "cat_deps (cat_run_cleanup s) = cat_deps s"
  "ent_cancelled (cat_run_cleanup s) = ent_cancelled s" "ent_cleanup (cat_run_cleanup s) = ent_cleanup s"
  "ent_pending (cat_run_cleanup s) = ent_pending s" "unmounted (cat_run_cleanup s) = unmounted s"
  "listening (cat_run_cleanup s) = listening s" "next_ref (cat_run_cleanup s) = next_ref s"
  by (simp_all add: cat_run_cleanup_def split: option.splits)

lemma ent_run_cleanup_frame:
  "ent_cleanup (ent_run_cleanup s) = None" "ent_pending (ent_run_cleanup s) = ent_pending s"
  "ent_requests (ent_run_cleanup s) = ent_requests s"
  "length (ent_cancelled (ent_run_cleanup s)) = length (ent_cancelled s)"
  "cat (ent_run_cleanup s) = cat s" "cat_loading (ent_run_cleanup s) = cat_loading s"
  "route_id (ent_run_cleanup s) = route_id s" "selectedTypes (ent_run_cleanup s) = selectedTypes s"
  "heap (ent_run_cleanup s) = heap s" "cat_requests (ent_run_cleanup s) = cat_requests s"
  "ent_deps (ent_run_cleanup s) = ent_deps s" "cat_deps (ent_run_cleanup s) = cat_deps s"
  "cat_cancelled (ent_run_cleanup s) = cat_cancelled s" "cat_cleanup (ent_run_cleanup s) = cat_cleanup s"
  "cat_pending (ent_run_cleanup s) = cat_pending s" "unmounted (ent_run_cleanup s) = unmounted s"
  "listening (ent_run_cleanup s) = listening s" "next_ref (ent_run_cleanup s) = next_ref s"
  by (simp_all add: ent_run_cleanup_def split: option.splits)

lemma cat_effect_frame:
  "route_id (cat_effect ident s) = route_id s" "selectedTypes (cat_effect ident s) = selectedTypes s"
  "heap (cat_effect ident s) = heap s" "ent_requests (cat_effect ident s) = ent_requests s"
  "ent_deps (cat_effect ident s) = ent_deps s" "cat_deps (cat_effect ident s) = cat_deps s"
  "ent_cancelled (cat_effect ident s) = ent_cancelled s" "ent_cleanup (cat_effect ident s) = ent_cleanup s"
  "ent_pending (cat_effect ident s) = ent_pending s" "unmounted (cat_effect ident s) = unmounted s"
  "listening (cat_effect ident s) = listening s" "next_ref (cat_effect ident s) = next_ref s"
  by (simp_all add: cat_effect_def Let_def falsy_def split: option.splits)

lemma ent_effect_frame:
  "route_id (ent_effect ident types s) = route_id s"
  "selectedTypes (ent_effect ident types s) = selectedTypes s"
  "heap (ent_effect ident types s) = heap s" "cat_requests (ent_effect ident types s) = cat_requests s"
  "ent_deps (ent_effect ident types s) = ent_deps s" "cat_deps (ent_effect ident types s) = cat_deps s"
  "cat_pending (ent_effect ident types s) = cat_pending s"
  "cat (ent_effect ident types s) = cat s" "cat_loading (ent_effect ident types s) = cat_loading s"
  "next_ref (ent_effect ident types s) = next_ref s"
  by (simp_all add: ent_effect_def unmount_def Let_def falsy_def cat_run_cleanup_frame ent_run_cleanup_frame
      split: option.splits)

lemma cat_run_effects_frame:
  "route_id (cat_run_effects s) = route_id s" "selectedTypes (cat_run_effects s) = selectedTypes s"
  "heap (cat_run_effects s) = heap s"
  "cat_deps (cat_run_effects s) = Some (route_id s)"
  "ent_deps (cat_run_effects s) = Some (route_id s, selectedTypes s)"
  by (simp_all add: cat_run_effects_def Let_def cat_effect_frame ent_effect_frame
      cat_run_cleanup_frame ent_run_cleanup_frame)

lemma cat_run_effects_fresh: "\<not> cat_stale (cat_run_effects s)"
  by (simp add: cat_stale_def cat_run_effects_frame)


lemma cat_flush_unfold: "cat_flush s = (if cat_stale s then cat_run_effects s else s)"
proof (cases "cat_stale s")
  case True
  then have "cat_flush s = cat_flush (cat_run_effects s)"
    by (subst cat_flush.simps) simp
  also have "\<dots> = cat_run_effects s"
    using cat_run_effects_fresh [of s] by (subst cat_flush.simps) simp
  finally show ?thesis using True by simp
next
  case False
  then show ?thesis by (subst cat_flush.simps) simp
qed

lemma cat_flush_fresh: "\<not> cat_stale (cat_flush s)"
  by (simp add: cat_flush_unfold cat_run_effects_fresh)

lemma cat_run_snoc: "cat_run ident (evs @ [e]) = cat_step e (cat_run ident evs)"
  by (simp add: cat_run_def)

lemma cat_run_fresh: "\<not> cat_stale (cat_run ident evs)"
proof (cases evs rule: rev_cases)
  case Nil
  then show ?thesis by (simp add: cat_run_def cat_mount_def cat_flush_fresh)
next
  case (snoc es e)
  then show ?thesis by (simp add: cat_run_snoc cat_step_def cat_flush_fresh)
qed


subsection \<open>Invariant: at each fetch site every run but the last issued one is cancelled\<close>

definition cat_site_inv :: "CategoryPage \<Rightarrow> bool" where
  "cat_site_inv s =
     ((\<forall>i \<in> set (cat_pending s).
         i < length (cat_cancelled s) \<and> (\<not> cat_cancelled s ! i \<longrightarrow> cat_cleanup s = Some i))
      \<and> (\<forall>i. cat_cleanup s = Some i \<longrightarrow>
            i < length (cat_cancelled s) \<and> cat_requests s \<noteq> [] \<and> i = fst (last (cat_requests s))))"

definition ent_site_inv :: "CategoryPage \<Rightarrow> bool" where
  "ent_site_inv s =
     ((\<forall>i \<in> set (ent_pending s).
         i < length (ent_cancelled s) \<and> (\<not> ent_cancelled s ! i \<longrightarrow> ent_cleanup s = Some i))
      \<and> (\<forall>i. ent_cleanup s = Some i \<longrightarrow>
            i < length (ent_cancelled s) \<and> ent_requests s \<noteq> [] \<and> i = fst (last (ent_requests s))))"

definition ref_inv :: "CategoryPage \<Rightarrow> bool" where
  "ref_inv s = (selectedTypes s < next_ref s)"

lemma cat_site_inv_cleanup:
  assumes "cat_site_inv s"
  shows "\<forall>i \<in> set (cat_pending (cat_run_cleanup s)).
           i < length (cat_cancelled (cat_run_cleanup s)) \<and> cat_cancelled (cat_run_cleanup s) ! i"
proof (cases "cat_cleanup s")
  case None
  with assms show ?thesis
    by (auto simp add: cat_site_inv_def cat_run_cleanup_def)
next
  case (Some j)
  with assms show ?thesis
    by (auto simp add: cat_site_inv_def cat_run_cleanup_def nth_list_update)
qed

lemma ent_site_inv_cleanup:
  assumes "ent_site_inv s"
  shows "\<forall>i \<in> set (ent_pending (ent_run_cleanup s)).
           i < length (ent_cancelled (ent_run_cleanup s)) \<and> ent_cancelled (ent_run_cleanup s) ! i"
proof (cases "ent_cleanup s")
  case None
  with assms show ?thesis
    by (auto simp add: ent_site_inv_def ent_run_cleanup_def)
next
  case (Some j)
  with assms show ?thesis
    by (auto simp add: ent_site_inv_def ent_run_cleanup_def nth_list_update)
qed

lemma cat_site_inv_run_cleanup:
  assumes "cat_site_inv s"
  shows "cat_site_inv (cat_run_cleanup s)"
  using cat_site_inv_cleanup [OF assms]
  by (simp add: cat_site_inv_def cat_run_cleanup_frame)

lemma ent_site_inv_run_cleanup:
  assumes "ent_site_inv s"
  shows "ent_site_inv (ent_run_cleanup s)"
  using ent_site_inv_cleanup [OF assms]
  by (simp add: ent_site_inv_def ent_run_cleanup_frame)

lemma cat_site_inv_effect:
  assumes "cat_site_inv s"
  shows "cat_site_inv (cat_effect ident (cat_run_cleanup s))"
  using cat_site_inv_cleanup [OF assms]
  by (auto simp add: cat_site_inv_def cat_effect_def Let_def nth_append cat_run_cleanup_frame
      split: option.splits)

lemma ent_run_cleanup_idle: "ent_cleanup s = None \<Longrightarrow> ent_run_cleanup s = s"
  by (simp add: ent_run_cleanup_def)

lemma ent_site_inv_effect:
  assumes "ent_site_inv s"
  shows "ent_site_inv (ent_effect ident types (ent_run_cleanup s))"
  using ent_site_inv_cleanup [OF assms]
  by (auto simp add: ent_site_inv_def ent_effect_def unmount_def Let_def nth_append
      ent_run_cleanup_frame cat_run_cleanup_frame ent_run_cleanup_idle split: option.splits)

lemma cat_site_inv_frame:
  assumes "cat_pending t = cat_pending s" and "cat_cancelled t = cat_cancelled s"
    and "cat_cleanup t = cat_cleanup s" and "cat_requests t = cat_requests s"
  shows "cat_site_inv t = cat_site_inv s"
  by (simp add: cat_site_inv_def assms)

lemma ent_site_inv_frame:
  assumes "ent_pending t = ent_pending s" and "ent_cancelled t = ent_cancelled s"
    and "ent_cleanup t = ent_cleanup s" and "ent_requests t = ent_requests s"
  shows "ent_site_inv t = ent_site_inv s"
  by (simp add: ent_site_inv_def assms)


lemma cat_site_inv_ent_effect:
  assumes "cat_site_inv s"
  shows "cat_site_inv (ent_effect ident types s)"
proof -
  let ?t = "s\<lparr>ent_cancelled := ent_cancelled s @ [False], cat_err := None, entitiesLoading := True\<rparr>"
  have "cat_site_inv ?t = cat_site_inv s"
    by (rule cat_site_inv_frame) simp_all
  with assms have "cat_site_inv ?t"
    by simp
  then have "cat_site_inv (cat_run_cleanup (ent_run_cleanup ?t))"
    by (simp add: cat_site_inv_run_cleanup cat_site_inv_frame [of "ent_run_cleanup ?t" ?t] ent_run_cleanup_frame)
  then have "cat_site_inv (unmount ?t)"
    by (simp add: unmount_def cat_site_inv_def)
  with assms show ?thesis
    by (auto simp add: ent_effect_def Let_def cat_site_inv_def split: option.splits)
qed

definition cat_page_inv :: "CategoryPage \<Rightarrow> bool" where
  "cat_page_inv s = (cat_site_inv s \<and> ent_site_inv s \<and> ref_inv s)"

lemma cat_page_inv_run_effects:
  assumes "cat_page_inv s"
  shows "cat_page_inv (cat_run_effects s)"
proof -
  let ?l = "if listening s then s else s\<lparr>listening := True\<rparr>"
  let ?a = "if cat_deps ?l = Some (route_id s) then ?l
            else cat_effect (route_id s) (cat_run_cleanup (?l\<lparr>cat_deps := Some (route_id s)\<rparr>))"
  let ?b = "if ent_deps ?a = Some (route_id s, selectedTypes s) then ?a
            else ent_effect (route_id s) (heap s (selectedTypes s))
                   (ent_run_cleanup (?a\<lparr>ent_deps := Some (route_id s, selectedTypes s)\<rparr>))"
  have r: "cat_run_effects s = ?b"
    by (simp add: cat_run_effects_def Let_def)
  from assms have l: "cat_site_inv ?l" "ent_site_inv ?l" "ref_inv ?l"
    by (simp_all add: cat_page_inv_def cat_site_inv_def ent_site_inv_def ref_inv_def)
  from l(1) have "cat_site_inv (?l\<lparr>cat_deps := Some (route_id s)\<rparr>)"
    by (simp add: cat_site_inv_def)
  from cat_site_inv_effect [OF this, of "route_id s"] l(1) have a1: "cat_site_inv ?a"
    by simp
  have "ent_site_inv ?a = ent_site_inv ?l"
    by (rule ent_site_inv_frame) (simp_all add: cat_effect_frame cat_run_cleanup_frame)
  with l(2) have a2: "ent_site_inv ?a" by simp
  have "ref_inv ?a = ref_inv ?l"
    by (simp add: ref_inv_def cat_effect_frame cat_run_cleanup_frame)
  with l(3) have a3: "ref_inv ?a" by simp
  from a2 have "ent_site_inv (?a\<lparr>ent_deps := Some (route_id s, selectedTypes s)\<rparr>)"
    by (simp add: ent_site_inv_def)
  from ent_site_inv_effect [OF this, of "route_id s" "heap s (selectedTypes s)"] a2
  have b2: "ent_site_inv ?b"
    by simp
  have "cat_site_inv (ent_run_cleanup (?a\<lparr>ent_deps := Some (route_id s, selectedTypes s)\<rparr>)) = cat_site_inv ?a"
    by (rule cat_site_inv_frame) (simp_all add: ent_run_cleanup_frame)
  with a1 have "cat_site_inv (ent_run_cleanup (?a\<lparr>ent_deps := Some (route_id s, selectedTypes s)\<rparr>))"
    by simp
  from cat_site_inv_ent_effect [OF this, of "route_id s" "heap s (selectedTypes s)"] a1
  have b1: "cat_site_inv ?b"
    by simp
  have "ref_inv ?b = ref_inv ?a"
    by (simp add: ref_inv_def ent_effect_frame ent_run_cleanup_frame)
  with a3 have b3: "ref_inv ?b" by simp
  from b1 b2 b3 show ?thesis
    by (simp only: r cat_page_inv_def)
qed

lemma cat_page_inv_flush: "cat_page_inv s \<Longrightarrow> cat_page_inv (cat_flush s)"
  by (simp add: cat_flush_unfold cat_page_inv_run_effects)

lemma cat_page_inv_settle: "cat_page_inv s \<Longrightarrow> cat_page_inv (cat_settle i out s)"
  by (auto simp add: cat_page_inv_def cat_site_inv_def ent_site_inv_def ref_inv_def cat_settle_def
      Let_def split: outcome.splits)

lemma ent_page_inv_settle: "cat_page_inv s \<Longrightarrow> cat_page_inv (ent_settle i out s)"
  by (auto simp add: cat_page_inv_def cat_site_inv_def ent_site_inv_def ref_inv_def ent_settle_def
      Let_def split: outcome.splits option.splits)

lemma cat_page_inv_handle: "cat_page_inv s \<Longrightarrow> cat_page_inv (cat_handle e s)"
proof (cases e)
  case (SettleCategory i out)
  assume "cat_page_inv s"
  with SettleCategory show ?thesis by (simp add: cat_page_inv_settle)
next
  case (SettleEntities i out)
  assume "cat_page_inv s"
  with SettleEntities show ?thesis by (simp add: ent_page_inv_settle)
qed (simp_all add: cat_page_inv_def cat_site_inv_def ent_site_inv_def ref_inv_def)

lemma cat_page_inv_run: "cat_page_inv (cat_run ident evs)"
proof (induction evs rule: rev_induct)
  case Nil
  have "cat_page_inv (cat_initial ident)"
    by (simp add: cat_page_inv_def cat_site_inv_def ent_site_inv_def ref_inv_def cat_initial_def)
  then show ?case
    by (simp add: cat_run_def cat_mount_def cat_page_inv_flush)
next
  case (snoc e es)
  then show ?case
    by (simp add: cat_run_snoc cat_step_def cat_page_inv_flush cat_page_inv_handle)
qed








lemma cat_stale_discarded:
  assumes "i \<in> set (cat_pending (cat_run ident evs))"
    and "i \<noteq> fst (last (cat_requests (cat_run ident evs)))"
  shows "cat_cancelled (cat_run ident evs) ! i
         \<and> cat_step (SettleCategory i out) (cat_run ident evs)
             = (cat_run ident evs)\<lparr>cat_pending := removeAll i (cat_pending (cat_run ident evs))\<rparr>"
proof -
  let ?s = "cat_run ident evs"
  have inv: "cat_site_inv ?s"
    using cat_page_inv_run [of ident evs] by (simp add: cat_page_inv_def)
  from inv assms(1) have lt: "i < length (cat_cancelled ?s)"
    by (simp add: cat_site_inv_def)
  have c: "cat_cancelled ?s ! i"
  proof (rule ccontr)
    assume "\<not> cat_cancelled ?s ! i"
    with inv assms(1) have "cat_cleanup ?s = Some i"
      by (simp add: cat_site_inv_def)
    with inv have "i = fst (last (cat_requests ?s))"
      by (simp add: cat_site_inv_def)
    with assms(2) show False by simp
  qed
  have "cat_settle i out ?s = ?s\<lparr>cat_pending := removeAll i (cat_pending ?s)\<rparr>"
    using assms(1) lt c by (simp add: cat_settle_def Let_def)
  moreover have "\<not> cat_stale (?s\<lparr>cat_pending := removeAll i (cat_pending ?s)\<rparr>)"
    using cat_run_fresh [of ident evs] by (simp add: cat_stale_def)
  ultimately show ?thesis
    using c by (simp add: cat_step_def cat_flush_unfold)
qed

lemma ent_stale_discarded:
  assumes "i \<in> set (ent_pending (cat_run ident evs))"
    and "i \<noteq> fst (last (ent_requests (cat_run ident evs)))"
  shows "ent_cancelled (cat_run ident evs) ! i
         \<and> cat_step (SettleEntities i out) (cat_run ident evs)
             = (cat_run ident evs)\<lparr>ent_pending := removeAll i (ent_pending (cat_run ident evs))\<rparr>"
proof -
  let ?s = "cat_run ident evs"
  have inv: "ent_site_inv ?s"
    using cat_page_inv_run [of ident evs] by (simp add: cat_page_inv_def)
  from inv assms(1) have lt: "i < length (ent_cancelled ?s)"
    by (simp add: ent_site_inv_def)
  have c: "ent_cancelled ?s ! i"
  proof (rule ccontr)
    assume "\<not> ent_cancelled ?s ! i"
    with inv assms(1) have "ent_cleanup ?s = Some i"
      by (simp add: ent_site_inv_def)
    with inv have "i = fst (last (ent_requests ?s))"
      by (simp add: ent_site_inv_def)
    with assms(2) show False by simp
  qed
  have "ent_settle i out ?s = ?s\<lparr>ent_pending := removeAll i (ent_pending ?s)\<rparr>"
    using assms(1) lt c by (simp add: ent_settle_def Let_def)
  moreover have "\<not> cat_stale (?s\<lparr>ent_pending := removeAll i (ent_pending ?s)\<rparr>)"
    using cat_run_fresh [of ident evs] by (simp add: cat_stale_def)
  ultimately show ?thesis
    using c by (simp add: cat_step_def cat_flush_unfold)
qed


lemmas cat_eval_defs = cat_run_def cat_mount_def cat_step_def cat_flush_unfold cat_stale_def
  cat_run_effects_def cat_effect_def ent_effect_def unmount_def cat_run_cleanup_def ent_run_cleanup_def
  cat_settle_def ent_settle_def cat_initial_def Let_def

lemma example_id: "js ''Q2F0'' \<noteq> []" "js ''Q2F1'' \<noteq> []" "js ''Q2F0'' \<noteq> js ''Q2F1''"
  by (simp_all add: js_def)









lemma navigated_state:
  "cat_pending (cat_run (Some (js ''Q2F0'')) [Navigate (Some (js ''Q2F1''))]) = [0, 1]
   \<and> cat_requests (cat_run (Some (js ''Q2F0'')) [Navigate (Some (js ''Q2F1''))])
       = [(0, js ''Q2F0''), (1, js ''Q2F1'')]
   \<and> ent_pending (cat_run (Some (js ''Q2F0'')) [Navigate (Some (js ''Q2F1''))]) = [0, 1]
   \<and> ent_requests (cat_run (Some (js ''Q2F0'')) [Navigate (Some (js ''Q2F1''))])
       = [(0, GetCategoryEntities (js ''Q2F0'') 25 0), (1, GetCategoryEntities (js ''Q2F1'') 25 0)]"
  by (simp add: cat_eval_defs example_id)

section \<open>Stale responses are discarded at every fetch site\<close>

definition retrigger_trace :: "event list" where
  "retrigger_trace = [TypeText (js '' cat''), Submit, SetKind kind_entity]"

lemma retrigger_state:
  "pending (run retrigger_trace) = [1, 2]
   \<and> fst (last (requests (run retrigger_trace))) = 2
   \<and> results (run retrigger_trace) = []"
proof -
  have "run retrigger_trace = step (SetKind kind_entity) (run [TypeText (js '' cat''), Submit])"
    using run_snoc [of "[TypeText (js '' cat''), Submit]"] by (simp add: retrigger_trace_def)
  then show ?thesis
    by (simp only: state2)
      (simp add: step_def flush_unfold stale_def run_effects_def kind_effect_def fetch_effect_def
        run_cleanup_def Let_def trim_example length_example LIMIT_def)
qed

text \<open>
  C2. At the fetch site of the search page and at both fetch sites of the category page:
  whatever happened before, when the promise of a run other than the one that issued
  the most recent call settles (with any outcome), its continuation finds its
  \<open>cancelled\<close> variable set and changes nothing of the page state; only the list of
  pending promises loses the run. So only the most recently issued fetch can commit.
\<close>

theorem last_request_wins:
  "(i \<in> set (pending (run evs)) \<and> i \<noteq> fst (last (requests (run evs))) \<longrightarrow>
      cancelled (run evs) ! i
      \<and> step (Settle i out) (run evs) = (run evs)\<lparr>pending := removeAll i (pending (run evs))\<rparr>)
   \<and> (j \<in> set (cat_pending (cat_run ident cevs))
        \<and> j \<noteq> fst (last (cat_requests (cat_run ident cevs))) \<longrightarrow>
      cat_cancelled (cat_run ident cevs) ! j
      \<and> cat_step (SettleCategory j cout) (cat_run ident cevs)
          = (cat_run ident cevs)\<lparr>cat_pending := removeAll j (cat_pending (cat_run ident cevs))\<rparr>)
   \<and> (k \<in> set (ent_pending (cat_run ident cevs))
        \<and> k \<noteq> fst (last (ent_requests (cat_run ident cevs))) \<longrightarrow>
      ent_cancelled (cat_run ident cevs) ! k
      \<and> cat_step (SettleEntities k eout) (cat_run ident cevs)
          = (cat_run ident cevs)\<lparr>ent_pending := removeAll k (ent_pending (cat_run ident cevs))\<rparr>)"
  using search_stale_discarded [of i evs out] cat_stale_discarded [of j ident cevs cout]
    ent_stale_discarded [of k ident cevs eout]
  by blast

theorem last_request_wins_witness:
  "pending (run retrigger_trace) = [1, 2]
   \<and> fst (last (requests (run retrigger_trace))) = 2
   \<and> cancelled (run retrigger_trace) ! 1
   \<and> results (step (Settle 1 (Resolved (Some example_data))) (run retrigger_trace)) = []
   \<and> cat_pending (cat_run (Some (js ''Q2F0'')) [Navigate (Some (js ''Q2F1''))]) = [0, 1]
   \<and> cat_requests (cat_run (Some (js ''Q2F0'')) [Navigate (Some (js ''Q2F1''))])
       = [(0, js ''Q2F0''), (1, js ''Q2F1'')]
   \<and> cat_cancelled (cat_run (Some (js ''Q2F0'')) [Navigate (Some (js ''Q2F1''))]) ! 0
   \<and> cat (cat_step (SettleCategory 0 (Resolved (Some example_category)))
              (cat_run (Some (js ''Q2F0'')) [Navigate (Some (js ''Q2F1''))])) = None
   \<and> ent_cancelled (cat_run (Some (js ''Q2F0'')) [Navigate (Some (js ''Q2F1''))]) ! 0"
proof -
  have a: "1 \<in> set (pending (run retrigger_trace))
      \<and> 1 \<noteq> fst (last (requests (run retrigger_trace)))"
    using retrigger_state by simp
  have b: "0 \<in> set (cat_pending (cat_run (Some (js ''Q2F0'')) [Navigate (Some (js ''Q2F1''))]))
      \<and> 0 \<noteq> fst (last (cat_requests (cat_run (Some (js ''Q2F0'')) [Navigate (Some (js ''Q2F1''))])))"
    using navigated_state by simp
  have c: "0 \<in> set (ent_pending (cat_run (Some (js ''Q2F0'')) [Navigate (Some (js ''Q2F1''))]))
      \<and> 0 \<noteq> fst (last (ent_requests (cat_run (Some (js ''Q2F0'')) [Navigate (Some (js ''Q2F1''))])))"
    using navigated_state by simp
  have d: "cat (cat_run (Some (js ''Q2F0'')) [Navigate (Some (js ''Q2F1''))]) = None"
    by (simp add: cat_eval_defs example_id)
  from a b c d retrigger_state navigated_state
    last_request_wins [of 1 retrigger_trace "Resolved (Some example_data)" 0 "Some (js ''Q2F0'')"
      "[Navigate (Some (js ''Q2F1''))]" "Resolved (Some example_category)" 0 "Resolved None"]
  show ?thesis by simp
qed

section \<open>API client (lib/api.ts)\<close>

text \<open>
  Each request function is an \<open>async\<close> function: an exception thrown in its body and a
  rejected \<open>await\<close> reject its promise. The outcome of the promise is a value
  \<open>js_error + 'j\<close>, with \<open>'j\<close> the type of parsed JSON values. To show what reaches the
  network, every function also returns the list of the requests it issued.

  The platform is a parameter: \<open>net\<close> gives, for a request, the response \<open>fetch\<close>
  resolves with, or \<open>None\<close> when \<open>fetch\<close> rejects (a network failure, a TypeError).
  A response has its status and the outcome of \<open>res.json()\<close> (\<open>None\<close> when the body is
  not JSON, a SyntaxError); \<open>res.ok\<close> is true for the statuses 200 to 299.
\<close>

datatype js_error = Error jsstring | TypeError jsstring | SyntaxError jsstring | URIError jsstring

record 'j Response =
  status :: nat
  json :: "'j option"

definition ok :: "'j Response \<Rightarrow> bool" where
  "ok res = (200 \<le> status res \<and> status res \<le> 299)"

text \<open>
  A request is the URL object as the client built it: the string and the base given to
  the \<open>URL\<close> constructor (or the string given to \<open>fetch\<close>, with no base) and the query
  parameters set on it. Its serialisation by \<open>url.toString()\<close> is not modelled.
\<close>

record request =
  req_url :: jsstring
  req_base :: "jsstring option"
  req_params :: "(jsstring \<times> jsstring) list"

type_synonym 'j network = "request \<Rightarrow> 'j Response option"

text \<open>
  The \<open>URL\<close> constructor, as far as the client depends on it: by the URL standard an
  input that does not start with a scheme (a letter, then letters, digits, \<open>+\<close>, \<open>-\<close>,
  \<open>.\<close>, then \<open>:\<close>) is relative, and parsing it fails when there is no base; the
  constructor then throws a TypeError. An absolute input, and a relative input with an
  absolute base, are taken to parse.
\<close>

fun scheme_rest :: "jsstring \<Rightarrow> bool" where
  "scheme_rest [] = False"
| "scheme_rest (c # cs) =
     (if c = 0x3A then True
      else if is_alnum c \<or> c = 0x2B \<or> c = 0x2D \<or> c = 0x2E then scheme_rest cs
      else False)"

definition has_scheme :: "jsstring \<Rightarrow> bool" where
  "has_scheme s = (case s of [] \<Rightarrow> False | c # cs \<Rightarrow> (is_upper c \<or> is_lower c) \<and> scheme_rest cs)"

definition new_URL :: "jsstring \<Rightarrow> jsstring option \<Rightarrow> js_error + request" where
  "new_URL input base =
     (if has_scheme input \<or> (case base of None \<Rightarrow> False | Some b \<Rightarrow> has_scheme b)
      then Inr \<lparr>req_url = input, req_base = base, req_params = []\<rparr>
      else Inl (TypeError (js ''Invalid URL'')))"

definition searchParams_set :: "jsstring \<Rightarrow> jsstring \<Rightarrow> request \<Rightarrow> request" where
  \<comment> \<open>\<open>url.searchParams.set(name, value)\<close>: the first pair of that name gets the value and
      the others are removed; without one, the pair is appended\<close>
  "searchParams_set name v url =
     url\<lparr>req_params :=
       (if name \<in> fst ` set (req_params url)
        then takeWhile (\<lambda>p. fst p \<noteq> name) (req_params url) @ [(name, v)]
             @ filter (\<lambda>p. fst p \<noteq> name) (tl (dropWhile (\<lambda>p. fst p \<noteq> name) (req_params url)))
        else req_params url @ [(name, v)])\<rparr>"

subsection \<open>Numbers and kinds as strings\<close>

function decimal :: "nat \<Rightarrow> jsstring" where
  "decimal n = (if n < 10 then [0x30 + n] else decimal (n div 10) @ [0x30 + n mod 10])"
  by pat_completeness auto
termination
  by (relation "measure (\<lambda>n. n)") auto

declare decimal.simps [simp del]

definition String_of_int :: "int \<Rightarrow> jsstring" where
  \<comment> \<open>\<open>String(n)\<close> for an integer \<open>n\<close>\<close>
  "String_of_int n = (if n < 0 then 0x2D # decimal (nat (- n)) else decimal (nat n))"

fun kind_string :: "SearchKind \<Rightarrow> jsstring" where
  "kind_string kind_category = js ''category''"
| "kind_string kind_entity = js ''entity''"
| "kind_string kind_all = js ''all''"

subsection \<open>The request functions\<close>

text \<open>
  Every function ends with the same three lines, with its own label:
  \<^verbatim>\<open>
  const res = await fetch(...);
  if (!res.ok) throw new Error(`<label> failed: ${res.status}`);
  return res.json();
  \<close>
\<close>

definition fetch_json :: "'j network \<Rightarrow> jsstring \<Rightarrow> request \<Rightarrow> js_error + 'j" where
  "fetch_json net label req =
     (case net req of
        None \<Rightarrow> Inl (TypeError (js ''Failed to fetch''))
      | Some res \<Rightarrow>
          if \<not> ok res then Inl (Error (label @ js '' failed: '' @ decimal (status res)))
          else (case json res of None \<Rightarrow> Inl (SyntaxError (js ''Unexpected token'')) | Some v \<Rightarrow> Inr v))"

text \<open>
  \<open>API_BASE\<close> is \<open>import.meta.env.VITE_API_BASE ?? ""\<close> and \<open>origin\<close> is
  \<open>window.location.origin\<close>; both are parameters.
\<close>

definition search :: "jsstring \<Rightarrow> jsstring \<Rightarrow> 'j network \<Rightarrow> jsstring \<Rightarrow> SearchKind \<Rightarrow> int \<Rightarrow> int
    \<Rightarrow> request list \<times> (js_error + 'j)" where
  "search API_BASE origin net q k limit offset =
     (let base = (if API_BASE \<noteq> [] then API_BASE else origin)
      in case new_URL (js ''/api/search'') (Some base) of
           Inl e \<Rightarrow> ([], Inl e)
         | Inr url \<Rightarrow>
             (let url = searchParams_set (js ''q'') q url;
                  url = searchParams_set (js ''kind'') (kind_string k) url;
                  url = searchParams_set (js ''limit'') (String_of_int limit) url;
                  url = searchParams_set (js ''offset'') (String_of_int offset) url
              in ([url], fetch_json net (js ''Search'') url)))"

definition getCategory :: "jsstring \<Rightarrow> 'j network \<Rightarrow> jsstring \<Rightarrow> request list \<times> (js_error + 'j)" where
  "getCategory API_BASE net ident =
     (case encodeURIComponent ident of
        None \<Rightarrow> ([], Inl (URIError (js ''URI malformed'')))
      | Some e \<Rightarrow>
          (let req = \<lparr>req_url = API_BASE @ js ''/api/category/'' @ e, req_base = None, req_params = []\<rparr>
           in ([req], fetch_json net (js ''Category'') req)))"

definition getCategoryEntities :: "jsstring \<Rightarrow> 'j network \<Rightarrow> jsstring \<Rightarrow> int \<Rightarrow> int
    \<Rightarrow> request list \<times> (js_error + 'j)" where
  "getCategoryEntities API_BASE net ident limit offset =
     (case encodeURIComponent ident of
        None \<Rightarrow> ([], Inl (URIError (js ''URI malformed'')))
      | Some e \<Rightarrow>
          (case new_URL (API_BASE @ js ''/api/category/'' @ e @ js ''/entities'') None of
             Inl ex \<Rightarrow> ([], Inl ex)
           | Inr url \<Rightarrow>
               (let url = searchParams_set (js ''limit'') (String_of_int limit) url;
                    url = searchParams_set (js ''offset'') (String_of_int offset) url
                in ([url], fetch_json net (js ''Category entities'') url))))"

definition getEntity :: "jsstring \<Rightarrow> 'j network \<Rightarrow> jsstring \<Rightarrow> request list \<times> (js_error + 'j)" where
  "getEntity API_BASE net ident =
     (case encodeURIComponent ident of
        None \<Rightarrow> ([], Inl (URIError (js ''URI malformed'')))
      | Some e \<Rightarrow>
          (let req = \<lparr>req_url = API_BASE @ js ''/api/entity/'' @ e, req_base = None, req_params = []\<rparr>
           in ([req], fetch_json net (js ''Entity'') req)))"

definition getRelatedEntities :: "jsstring \<Rightarrow> 'j network \<Rightarrow> jsstring \<Rightarrow> int
    \<Rightarrow> request list \<times> (js_error + 'j)" where
  "getRelatedEntities API_BASE net ident limit =
     (case encodeURIComponent ident of
        None \<Rightarrow> ([], Inl (URIError (js ''URI malformed'')))
      | Some e \<Rightarrow>
          (case new_URL (API_BASE @ js ''/api/entity/'' @ e @ js ''/related'') None of
             Inl ex \<Rightarrow> ([], Inl ex)
           | Inr url \<Rightarrow>
               (let url = searchParams_set (js ''limit'') (String_of_int limit) url
                in ([url], fetch_json net (js ''Related entities'') url))))"

subsection \<open>What every request function does with the response\<close>

lemma fetch_json_Error:
  "(fetch_json net label req = Inl (Error m)) =
     (\<exists>res. net req = Some res \<and> \<not> ok res \<and> m = label @ js '' failed: '' @ decimal (status res))"
  by (auto simp add: fetch_json_def split: option.splits)

lemma fetch_json_ok:
  "net req = Some res \<Longrightarrow> ok res \<Longrightarrow>
   fetch_json net label req =
     (case json res of None \<Rightarrow> Inl (SyntaxError (js ''Unexpected token'')) | Some v \<Rightarrow> Inr v)"
  by (simp add: fetch_json_def)

lemma new_URL_not_Error: "new_URL input base \<noteq> Inl (Error m)"
  by (simp add: new_URL_def)

lemma request_shape:
  assumes "(label, reqs, out) = (js ''Search'', search API_BASE origin net q k limit offset)
         \<or> (label, reqs, out) = (js ''Category'', getCategory API_BASE net ident)
         \<or> (label, reqs, out) = (js ''Category entities'', getCategoryEntities API_BASE net ident limit offset)
         \<or> (label, reqs, out) = (js ''Entity'', getEntity API_BASE net ident)
         \<or> (label, reqs, out) = (js ''Related entities'', getRelatedEntities API_BASE net ident limit)"
  shows "(\<exists>req. reqs = [req] \<and> out = fetch_json net label req)
         \<or> (reqs = [] \<and> (\<exists>e. out = Inl e \<and> (\<forall>m. e \<noteq> Error m)))"
  using assms
  by (auto simp add: search_def getCategory_def getCategoryEntities_def getEntity_def
      getRelatedEntities_def new_URL_def Let_def split: option.splits sum.splits if_splits)

text \<open>
  Each of the five request functions issues at most one request (it never retries). It
  fails with the error \<open>Error("<label> failed: <status>")\<close> exactly when its request got a
  response whose status is outside 200 to 299; and when its request got a response with
  a status from 200 to 299 its outcome is the outcome of \<open>res.json()\<close>, unchanged. This
  holds on every path, and says nothing where no request is issued.
\<close>

lemma response_handling:
  assumes "(label, reqs, out) = (js ''Search'', search API_BASE origin net q k limit offset)
         \<or> (label, reqs, out) = (js ''Category'', getCategory API_BASE net ident)
         \<or> (label, reqs, out) = (js ''Category entities'', getCategoryEntities API_BASE net ident limit offset)
         \<or> (label, reqs, out) = (js ''Entity'', getEntity API_BASE net ident)
         \<or> (label, reqs, out) = (js ''Related entities'', getRelatedEntities API_BASE net ident limit)"
  shows "length reqs \<le> 1
         \<and> (\<forall>m. (out = Inl (Error m)) =
                (\<exists>req res. reqs = [req] \<and> net req = Some res \<and> \<not> ok res
                    \<and> m = label @ js '' failed: '' @ decimal (status res)))
         \<and> (\<forall>req res. reqs = [req] \<and> net req = Some res \<and> ok res \<longrightarrow>
                out = (case json res of None \<Rightarrow> Inl (SyntaxError (js ''Unexpected token''))
                       | Some v \<Rightarrow> Inr v))"
proof -
  from request_shape [OF assms] consider
    (request) req where "reqs = [req]" "out = fetch_json net label req"
    | (thrown) e where "reqs = []" "out = Inl e" "\<forall>m. e \<noteq> Error m"
    by blast
  then show ?thesis
  proof cases
    case request
    then show ?thesis
      by (auto simp add: fetch_json_Error fetch_json_ok)
  next
    case thrown
    then show ?thesis by simp
  qed
qed


subsection \<open>The empty base\<close>

lemma relative_no_scheme: "\<not> has_scheme (0x2F # s)"
  by (simp add: has_scheme_def is_upper_def is_lower_def)

lemma getCategoryEntities_empty_base:
  "well_formed ident \<Longrightarrow>
   getCategoryEntities [] net ident limit offset = ([], Inl (TypeError (js ''Invalid URL'')))"
proof -
  assume "well_formed ident"
  from encodeURIComponent_utf8 [OF this] obtain e where e: "encodeURIComponent ident = Some e"
    by blast
  have "js ''/api/category/'' @ e @ js ''/entities'' = 0x2F # (js ''api/category/'' @ e @ js ''/entities'')"
    by (simp add: js_def)
  then have "new_URL (js ''/api/category/'' @ e @ js ''/entities'') None = Inl (TypeError (js ''Invalid URL''))"
    by (simp only: new_URL_def relative_no_scheme) simp
  then show ?thesis
    by (simp add: getCategoryEntities_def e)
qed

lemma getRelatedEntities_empty_base:
  "well_formed ident \<Longrightarrow>
   getRelatedEntities [] net ident limit = ([], Inl (TypeError (js ''Invalid URL'')))"
proof -
  assume "well_formed ident"
  from encodeURIComponent_utf8 [OF this] obtain e where e: "encodeURIComponent ident = Some e"
    by blast
  have "js ''/api/entity/'' @ e @ js ''/related'' = 0x2F # (js ''api/entity/'' @ e @ js ''/related'')"
    by (simp add: js_def)
  then have "new_URL (js ''/api/entity/'' @ e @ js ''/related'') None = Inl (TypeError (js ''Invalid URL''))"
    by (simp only: new_URL_def relative_no_scheme) simp
  then show ?thesis
    by (simp add: getRelatedEntities_def e)
qed

lemma decimal_examples: "decimal 20 = js ''20''" "decimal 0 = js ''0''"
  by (simp_all add: decimal.simps [of 20] decimal.simps [of 2] decimal.simps [of 0] js_def)

text \<open>
  C4. A defect of two of the five request functions. \<open>API_BASE\<close> is empty by default
  (\<open>import.meta.env.VITE_API_BASE ?? ""\<close>, "allow empty for same-origin"). With the
  empty base, \<open>getCategoryEntities\<close> and \<open>getRelatedEntities\<close> give a relative string to
  the \<open>URL\<close> constructor without a base: they fail with its TypeError, which carries no
  HTTP status, and issue no request, whatever the network would answer. \<open>search\<close>
  passes \<open>window.location.origin\<close> as the base in that case and issues its request, as
  \<open>getCategory\<close> does.
\<close>

theorem empty_base_no_request:
  "getCategoryEntities [] net (js ''Q2F0'') 50 0 = ([], Inl (TypeError (js ''Invalid URL'')))
   \<and> getRelatedEntities [] net (js ''Q2F0'') 10 = ([], Inl (TypeError (js ''Invalid URL'')))
   \<and> search [] (js ''http://localhost:5173'') net (js ''cat'') kind_all 20 0
       = ([\<lparr>req_url = js ''/api/search'', req_base = Some (js ''http://localhost:5173''),
            req_params = [(js ''q'', js ''cat''), (js ''kind'', js ''all''), (js ''limit'', js ''20''),
                          (js ''offset'', js ''0'')]\<rparr>],
          fetch_json net (js ''Search'')
            \<lparr>req_url = js ''/api/search'', req_base = Some (js ''http://localhost:5173''),
             req_params = [(js ''q'', js ''cat''), (js ''kind'', js ''all''), (js ''limit'', js ''20''),
                           (js ''offset'', js ''0'')]\<rparr>)
   \<and> getCategory [] net (js ''Q2F0'')
       = ([\<lparr>req_url = js ''/api/category/Q2F0'', req_base = None, req_params = []\<rparr>],
          fetch_json net (js ''Category'')
            \<lparr>req_url = js ''/api/category/Q2F0'', req_base = None, req_params = []\<rparr>)"
proof -
  have w: "well_formed (js ''Q2F0'')"
    by (simp add: js_def is_lead_def is_trail_def)
  have e: "encodeURIComponent (js ''Q2F0'') = Some (js ''Q2F0'')"
    by (simp add: js_def uriUnreserved_def is_alnum_def is_upper_def is_lower_def is_digit_def)
  have s: "has_scheme (js ''http://localhost:5173'')"
    by (simp add: js_def has_scheme_def is_alnum_def is_upper_def is_lower_def is_digit_def)
  have p: "js ''q'' \<noteq> js ''kind''" "js ''limit'' \<noteq> js ''q''" "js ''limit'' \<noteq> js ''kind''"
    "js ''offset'' \<noteq> js ''q''" "js ''offset'' \<noteq> js ''kind''" "js ''offset'' \<noteq> js ''limit''"
    by (simp_all add: js_def)
  have c3: "search [] (js ''http://localhost:5173'') net (js ''cat'') kind_all 20 0
       = ([\<lparr>req_url = js ''/api/search'', req_base = Some (js ''http://localhost:5173''),
            req_params = [(js ''q'', js ''cat''), (js ''kind'', js ''all''), (js ''limit'', js ''20''),
                          (js ''offset'', js ''0'')]\<rparr>],
          fetch_json net (js ''Search'')
            \<lparr>req_url = js ''/api/search'', req_base = Some (js ''http://localhost:5173''),
             req_params = [(js ''q'', js ''cat''), (js ''kind'', js ''all''), (js ''limit'', js ''20''),
                           (js ''offset'', js ''0'')]\<rparr>)"
    using s p
    by (simp add: search_def new_URL_def searchParams_set_def Let_def String_of_int_def
        decimal_examples)
  have c4: "getCategory [] net (js ''Q2F0'')
       = ([\<lparr>req_url = js ''/api/category/Q2F0'', req_base = None, req_params = []\<rparr>],
          fetch_json net (js ''Category'')
            \<lparr>req_url = js ''/api/category/Q2F0'', req_base = None, req_params = []\<rparr>)"
    by (simp add: getCategory_def e Let_def) (simp add: js_def)
  note c1 = getCategoryEntities_empty_base [OF w, of net 50 0]
  note c2 = getRelatedEntities_empty_base [OF w, of net 10]
  from c1 c2 c3 c4 show ?thesis
    by (intro conjI)
qed

end
